theory Spec2Isabelle
  imports Main "HOL-Library.Sublist" "HOL-Library.Word" "HOL-Library.Multiset"
begin

unbundle bit_operations_syntax

section \<open>JavaScript strings\<close>

text \<open>
  The paths handled by \<^verbatim>\<open>electron/main.mjs\<close> are JavaScript strings. The
  resolver and the file operations are modelled on \<^typ>\<open>string\<close>, read as code units
  below 256; only the identifier scheme, whose result depends on how a string is encoded,
  works on full sequences of UTF-16 code units.
\<close>

abbreviation startsWith :: "string \<Rightarrow> string \<Rightarrow> bool" where
  "startsWith s p \<equiv> prefix p s"

abbreviation endsWith :: "string \<Rightarrow> string \<Rightarrow> bool" where
  "endsWith s p \<equiv> suffix p s"

definition backslash :: char where
  "backslash = CHR 0x5C"

text \<open>\<^verbatim>\<open>s.split(sep)\<close> for a one-character separator: empty pieces are kept.\<close>

fun str_split :: "char \<Rightarrow> string \<Rightarrow> string list" where
  "str_split sep [] = [[]]"
| "str_split sep (c # cs) =
     (if c = sep then [] # str_split sep cs
      else (case str_split sep cs of
              [] \<Rightarrow> [[c]]
            | w # ws \<Rightarrow> (c # w) # ws))"

text \<open>\<^verbatim>\<open>relative.split('/').filter(Boolean)\<close>: the empty string is the only falsy one.\<close>

definition segmentsOf :: "string \<Rightarrow> string list" where
  "segmentsOf relative = filter (\<lambda>s. s \<noteq> []) (str_split CHR ''/'' relative)"

text \<open>\<^verbatim>\<open>virtual.endsWith('/') ? virtual : `${virtual}/`\<close>\<close>

definition normalizeVirtualFolder :: "string \<Rightarrow> string" where
  "normalizeVirtualFolder virtual = (if endsWith virtual ''/'' then virtual else virtual @ ''/'')"

text \<open>\<^verbatim>\<open>virtualPath.replace(/\\+/g, '/')\<close>: every maximal run of backslashes becomes one slash.\<close>

function sanitizeVirtualPath :: "string \<Rightarrow> string" where
  "sanitizeVirtualPath [] = []"
| "sanitizeVirtualPath (c # cs) =
     (if c = backslash then CHR ''/'' # sanitizeVirtualPath (dropWhile (\<lambda>d. d = backslash) cs)
      else c # sanitizeVirtualPath cs)"
  by pat_completeness auto
termination
  by (relation "measure length") (auto simp: less_Suc_eq_le length_dropWhile_le)

section \<open>The environment of the main process\<close>

text \<open>
  \<^verbatim>\<open>node:path\<close> is platform code outside the repository; the functions of it
  that \<^verbatim>\<open>main.mjs\<close> calls are the fields of a record, so every result below holds
  for the Windows and the POSIX variant alike.
\<close>

record pathmod =
  path_sep :: string
  path_join :: "string list \<Rightarrow> string"
  path_resolve :: "string \<Rightarrow> string"
  path_basename :: "string \<Rightarrow> string"
  path_dirname :: "string \<Rightarrow> string"
  path_extname :: "string \<Rightarrow> string"

type_synonym timestamp = int

record env =
  homedir :: string
  envSystemDrive :: "string option"
  now :: timestamp

text \<open>\<^verbatim>\<open>(process.env.SystemDrive || 'C:').replace(/\\$/, '')\<close>\<close>

definition systemDrive :: "env \<Rightarrow> string" where
  "systemDrive E =
     (let v = (case envSystemDrive E of None \<Rightarrow> ''C:'' | Some d \<Rightarrow> if d = [] then ''C:'' else d)
      in if v \<noteq> [] \<and> last v = backslash then butlast v else v)"

definition systemDriveDisplayName :: "env \<Rightarrow> string" where
  "systemDriveDisplayName E = ''Local Disk ('' @ systemDrive E @ '')''"

type_synonym aliases = "string \<rightharpoonup> string"

text \<open>\<^verbatim>\<open>new Map([[systemDriveDisplayName, systemDrive]])\<close>\<close>

definition driveAliasMap0 :: "env \<Rightarrow> aliases" where
  "driveAliasMap0 E = [systemDriveDisplayName E \<mapsto> systemDrive E]"

record specialFolder =
  sf_label :: string
  sf_virtual :: string
  sf_fsPath :: string

definition specialFolders :: "pathmod \<Rightarrow> env \<Rightarrow> specialFolder list" where
  "specialFolders P E =
     [\<lparr>sf_label = ''Desktop'', sf_virtual = ''local://Desktop/'', sf_fsPath = path_join P [homedir E, ''Desktop'']\<rparr>,
      \<lparr>sf_label = ''Documents'', sf_virtual = ''local://Documents/'', sf_fsPath = path_join P [homedir E, ''Documents'']\<rparr>,
      \<lparr>sf_label = ''Downloads'', sf_virtual = ''local://Downloads/'', sf_fsPath = path_join P [homedir E, ''Downloads'']\<rparr>,
      \<lparr>sf_label = ''Music'', sf_virtual = ''local://Music/'', sf_fsPath = path_join P [homedir E, ''Music'']\<rparr>,
      \<lparr>sf_label = ''Pictures'', sf_virtual = ''local://Pictures/'', sf_fsPath = path_join P [homedir E, ''Pictures'']\<rparr>,
      \<lparr>sf_label = ''Videos'', sf_virtual = ''local://Videos/'', sf_fsPath = path_join P [homedir E, ''Videos'']\<rparr>]"

section \<open>Virtual path resolution\<close>

text \<open>The \<^verbatim>\<open>code\<close> of an error that a call of \<^verbatim>\<open>node:fs\<close> rejects with.\<close>

datatype errno =
    ENOENT | EEXIST | ENOTDIR | EISDIR | ENOTEMPTY | EXDEV | EINVAL | EACCES | EPERM
  | ERR_FS_CP_EINVAL | ERR_FS_CP_DIR_TO_NON_DIR | ERR_FS_CP_NON_DIR_TO_DIR

text \<open>
  Every \<^verbatim>\<open>throw new Error(...)\<close> of the module is a constructor, with the string
  interpolated into its message; \<open>FsError\<close> is a rejection of \<^verbatim>\<open>node:fs\<close> that
  the module lets through.
\<close>

datatype error =
    UnsupportedScheme string
  | UnknownDrive string
  | UnsupportedLocalPath string
  | CannotListFile
  | NoSourceItems
  | DestinationNotDirectory
  | UnsupportedSource string
  | SelfContainment
  | NoTargets
  | UnsupportedTarget string
  | FsError errno

datatype resolved =
    Root
  | Drives
  | Entry string bool string

definition isAsciiLetter :: "char \<Rightarrow> bool" where
  "isAsciiLetter c =
     (let n = (of_char c :: nat) in (65 \<le> n \<and> n \<le> 90) \<or> (97 \<le> n \<and> n \<le> 122))"

definition toUpperAscii :: "char \<Rightarrow> char" where
  "toUpperAscii c =
     (let n = (of_char c :: nat) in if 97 \<le> n \<and> n \<le> 122 then char_of (n - 32) else c)"

text \<open>\<^verbatim>\<open>displayName.match(/\(([A-Z]):\)/i)\<close>: the letter of the leftmost match.\<close>

fun matchDriveLetter :: "string \<Rightarrow> char option" where
  "matchDriveLetter (a # b # c # d # rest) =
     (if a = CHR ''('' \<and> isAsciiLetter b \<and> c = CHR '':'' \<and> d = CHR '')'' then Some b
      else matchDriveLetter (b # c # d # rest))"
| "matchDriveLetter _ = None"

definition ensureDriveLetter :: "aliases \<Rightarrow> string \<Rightarrow> string option \<times> aliases" where
  "ensureDriveLetter A displayName =
     (case A displayName of
        Some letter \<Rightarrow> (Some letter, A)
      | None \<Rightarrow>
          (case matchDriveLetter displayName of
             Some m \<Rightarrow>
               (let letter = [toUpperAscii m, CHR '':'']
                in (Some letter, A(displayName \<mapsto> letter)))
           | None \<Rightarrow> (None, A)))"

definition isLineTerminator :: "char \<Rightarrow> bool" where
  "isLineTerminator c = (c = CHR 0x0A \<or> c = CHR 0x0D)"

text \<open>
  \<^verbatim>\<open>sanitized.match(/^local:\/\/This PC\/([^/]+)\/?(.*)$/)\<close>: the two groups of the
  match. The first group is greedy, so it is the whole run up to the next slash; the
  dot of the second group matches no line terminator, so a remainder holding one has
  no match.
\<close>

definition driveMatch :: "string \<Rightarrow> (string \<times> string) option" where
  "driveMatch sanitized =
     (if startsWith sanitized ''local://This PC/'' then
        (let rest = drop (length ''local://This PC/'') sanitized;
             displayName = takeWhile (\<lambda>c. c \<noteq> CHR ''/'') rest;
             remainder = drop 1 (dropWhile (\<lambda>c. c \<noteq> CHR ''/'') rest)
         in if displayName = [] \<or> list_ex isLineTerminator remainder then None
            else Some (displayName, remainder))
      else None)"

text \<open>The loop over \<^verbatim>\<open>specialFolders\<close>: the first folder that matches returns.\<close>

fun matchSpecialFolder :: "pathmod \<Rightarrow> string \<Rightarrow> specialFolder list \<Rightarrow> resolved option" where
  "matchSpecialFolder P sanitized [] = None"
| "matchSpecialFolder P sanitized (folder # rest) =
     (let base = normalizeVirtualFolder (sf_virtual folder) in
      if sanitized = base \<or> sanitized = butlast base then
        Some (Entry (sf_fsPath folder) True base)
      else if startsWith sanitized base then
        (let relative = drop (length base) sanitized;
             segments = segmentsOf relative
         in Some (Entry (path_join P (sf_fsPath folder # segments))
                    (endsWith sanitized ''/'' \<or> segments = []) base))
      else matchSpecialFolder P sanitized rest)"

definition resolveLocalVirtualPath ::
  "pathmod \<Rightarrow> env \<Rightarrow> aliases \<Rightarrow> string \<Rightarrow> (error + resolved) \<times> aliases" where
  "resolveLocalVirtualPath P E A virtualPath =
     (let sanitized = sanitizeVirtualPath virtualPath in
      if \<not> startsWith sanitized ''local://'' then (Inl (UnsupportedScheme virtualPath), A)
      else if sanitized = ''local://'' then (Inr Root, A)
      else if sanitized = ''local://This PC/'' \<or> sanitized = ''local://This PC'' then (Inr Drives, A)
      else
        (case matchSpecialFolder P sanitized (specialFolders P E) of
           Some r \<Rightarrow> (Inr r, A)
         | None \<Rightarrow>
             (case driveMatch sanitized of
                Some (displayName, remainder) \<Rightarrow>
                  (case ensureDriveLetter A displayName of
                     (None, A') \<Rightarrow> (Inl (UnknownDrive displayName), A')
                   | (Some driveLetter, A') \<Rightarrow>
                       if driveLetter = [] then (Inl (UnknownDrive displayName), A')
                       else
                         (let segments = segmentsOf remainder
                          in (Inr (Entry (path_join P ((driveLetter @ path_sep P) # segments))
                                     (endsWith sanitized ''/'' \<or> segments = [])
                                     (''local://This PC/'' @ displayName @ ''/'')), A')))
              | None \<Rightarrow> (Inl (UnsupportedLocalPath virtualPath), A))))"


section \<open>The identifier scheme\<close>

text \<open>
  \<^verbatim>\<open>crypto.createHash('sha1').update(virtualPath).digest('hex')\<close>: the string is
  encoded as UTF-8 (a surrogate without its partner becomes U+FFFD), hashed with SHA-1
  and written as 40 lower-case hexadecimal digits.
\<close>

type_synonym byte = "8 word"
type_synonym jsstring = "16 word list"

definition utf16 :: "string \<Rightarrow> jsstring" where
  "utf16 s = map (\<lambda>c. of_nat (of_char c)) s"

definition isHighSurrogate :: "16 word \<Rightarrow> bool" where
  "isHighSurrogate u = (0xD800 \<le> u \<and> u \<le> 0xDBFF)"

definition isLowSurrogate :: "16 word \<Rightarrow> bool" where
  "isLowSurrogate u = (0xDC00 \<le> u \<and> u \<le> 0xDFFF)"

definition utf8_codepoint :: "nat \<Rightarrow> byte list" where
  "utf8_codepoint n =
     (if n < 0x80 then [of_nat n]
      else if n < 0x800 then [of_nat (0xC0 + n div 0x40), of_nat (0x80 + n mod 0x40)]
      else if n < 0x10000 then
        [of_nat (0xE0 + n div 0x1000), of_nat (0x80 + n div 0x40 mod 0x40), of_nat (0x80 + n mod 0x40)]
      else
        [of_nat (0xF0 + n div 0x40000), of_nat (0x80 + n div 0x1000 mod 0x40),
         of_nat (0x80 + n div 0x40 mod 0x40), of_nat (0x80 + n mod 0x40)])"

fun utf8 :: "jsstring \<Rightarrow> byte list" where
  "utf8 [] = []"
| "utf8 [u] =
     utf8_codepoint (if isHighSurrogate u \<or> isLowSurrogate u then 0xFFFD else unat u)"
| "utf8 (u # v # rest) =
     (if isHighSurrogate u \<and> isLowSurrogate v then
        utf8_codepoint (0x10000 + (unat u - 0xD800) * 0x400 + (unat v - 0xDC00)) @ utf8 rest
      else
        utf8_codepoint (if isHighSurrogate u \<or> isLowSurrogate u then 0xFFFD else unat u)
          @ utf8 (v # rest))"

definition sha1_pad :: "byte list \<Rightarrow> byte list" where
  "sha1_pad msg =
     (let n = length msg;
          bits = (of_nat (8 * n) :: 64 word)
      in msg @ [0x80] @ replicate ((119 - n mod 64) mod 64) 0
           @ map (\<lambda>i. ucast (drop_bit (8 * (7 - i)) bits)) [0..<8])"

definition be32 :: "byte list \<Rightarrow> 32 word" where
  "be32 bs = foldl (\<lambda>w b. push_bit 8 w OR ucast b) 0 (take 4 bs)"

function sha1_words :: "byte list \<Rightarrow> 32 word list" where
  "sha1_words bs = (if length bs < 4 then [] else be32 bs # sha1_words (drop 4 bs))"
  by pat_completeness auto
termination
  by (relation "measure length") auto

function sha1_blocks :: "32 word list \<Rightarrow> 32 word list list" where
  "sha1_blocks ws = (if length ws < 16 then [] else take 16 ws # sha1_blocks (drop 16 ws))"
  by pat_completeness auto
termination
  by (relation "measure length") auto

text \<open>The message schedule, newest word first.\<close>

fun sha1_expand :: "nat \<Rightarrow> 32 word list \<Rightarrow> 32 word list" where
  "sha1_expand 0 ws = ws"
| "sha1_expand (Suc n) ws =
     sha1_expand n (word_rotl 1 (ws ! 2 XOR ws ! 7 XOR ws ! 13 XOR ws ! 15) # ws)"

definition sha1_f :: "nat \<Rightarrow> 32 word \<Rightarrow> 32 word \<Rightarrow> 32 word \<Rightarrow> 32 word" where
  "sha1_f t b c d =
     (if t < 20 then (b AND c) OR (NOT b AND d)
      else if t < 40 then b XOR c XOR d
      else if t < 60 then (b AND c) OR (b AND d) OR (c AND d)
      else b XOR c XOR d)"

definition sha1_k :: "nat \<Rightarrow> 32 word" where
  "sha1_k t =
     (if t < 20 then 0x5A827999
      else if t < 40 then 0x6ED9EBA1
      else if t < 60 then 0x8F1BBCDC
      else 0xCA62C1D6)"

type_synonym sha1_state = "32 word \<times> 32 word \<times> 32 word \<times> 32 word \<times> 32 word"

definition sha1_round :: "32 word list \<Rightarrow> nat \<Rightarrow> sha1_state \<Rightarrow> sha1_state" where
  "sha1_round w t st =
     (case st of (a, b, c, d, e) \<Rightarrow>
        (word_rotl 5 a + sha1_f t b c d + e + sha1_k t + w ! t, a, word_rotl 30 b, c, d))"

definition sha1_block :: "sha1_state \<Rightarrow> 32 word list \<Rightarrow> sha1_state" where
  "sha1_block h blk =
     (let w = rev (sha1_expand 64 (rev blk)) in
      case (h, fold (sha1_round w) [0..<80] h) of
        ((h0, h1, h2, h3, h4), (a, b, c, d, e)) \<Rightarrow> (h0 + a, h1 + b, h2 + c, h3 + d, h4 + e))"

definition bytes_of_word32 :: "32 word \<Rightarrow> byte list" where
  "bytes_of_word32 w = map (\<lambda>i. ucast (drop_bit (8 * (3 - i)) w)) [0..<4]"

definition sha1 :: "byte list \<Rightarrow> byte list" where
  "sha1 msg =
     (case foldl sha1_block (0x67452301, 0xEFCDAB89, 0x98BADCFE, 0x10325476, 0xC3D2E1F0)
             (sha1_blocks (sha1_words (sha1_pad msg))) of
        (h0, h1, h2, h3, h4) \<Rightarrow> concat (map bytes_of_word32 [h0, h1, h2, h3, h4]))"

definition hexDigit :: "nat \<Rightarrow> char" where
  "hexDigit n = ''0123456789abcdef'' ! n"

definition hexOfByte :: "byte \<Rightarrow> string" where
  "hexOfByte b = [hexDigit (unat b div 16), hexDigit (unat b mod 16)]"

definition hexOfBytes :: "byte list \<Rightarrow> string" where
  "hexOfBytes bs = concat (map hexOfByte bs)"

definition createIdForPath :: "jsstring \<Rightarrow> string" where
  "createIdForPath virtualPath = hexOfBytes (sha1 (utf8 virtualPath))"

section \<open>The file system interface\<close>

text \<open>
  \<^verbatim>\<open>node:fs/promises\<close> as the module uses it, over a state \<open>'s\<close> of the file
  system. A call that only reads (\<^verbatim>\<open>access\<close>, \<^verbatim>\<open>stat\<close>, \<^verbatim>\<open>readdir\<close>)
  maps the state to its answer; a call that writes returns the error it rejects with,
  if any, and the state it leaves, which may have changed even when it fails.
  \<^verbatim>\<open>fs_mkdir\<close> is \<^verbatim>\<open>mkdir(p, {recursive: true})\<close>, \<^verbatim>\<open>fs_cp\<close> is
  \<^verbatim>\<open>cp(a, b, {recursive: true, force: true})\<close> and \<^verbatim>\<open>fs_rm\<close> is
  \<^verbatim>\<open>rm(p, {recursive: true, force: true})\<close>. An \<^verbatim>\<open>await\<close> is sequencing: one
  call of a handler runs on its own.
\<close>

text \<open>
  \<^verbatim>\<open>stats.mtime\<close> is the \<^verbatim>\<open>Date\<close> that Node.js makes of the modification time
  in milliseconds, \<open>st_mtime\<close>. The time of a \<^verbatim>\<open>Date\<close> lies within
  8 640 000 000 000 000 ms of the epoch; \<^verbatim>\<open>new Date(ms)\<close> of any other number is an
  invalid date, and \<^verbatim>\<open>toISOString\<close> of an invalid date throws a
  \<^verbatim>\<open>RangeError\<close>, here \<open>None\<close>. The time of a valid date stands for the ISO string
  that denotes it.
\<close>

record stats =
  st_isDirectory :: bool
  st_size :: nat
  st_mtime :: timestamp

definition toISOString :: "timestamp \<Rightarrow> timestamp option" where
  "toISOString ms = (if \<bar>ms\<bar> \<le> 8640000000000000 then Some ms else None)"

record dirent =
  d_name :: string
  d_isDirectory :: bool

record 's fsapi =
  fs_access :: "string \<Rightarrow> 's \<Rightarrow> errno option"
  fs_stat :: "string \<Rightarrow> 's \<Rightarrow> errno + stats"
  fs_readdir :: "string \<Rightarrow> 's \<Rightarrow> errno + dirent list"
  fs_mkdir :: "string \<Rightarrow> 's \<Rightarrow> errno option \<times> 's"
  fs_cp :: "string \<Rightarrow> string \<Rightarrow> 's \<Rightarrow> errno option \<times> 's"
  fs_copyFile :: "string \<Rightarrow> string \<Rightarrow> 's \<Rightarrow> errno option \<times> 's"
  fs_rename :: "string \<Rightarrow> string \<Rightarrow> 's \<Rightarrow> errno option \<times> 's"
  fs_rm :: "string \<Rightarrow> 's \<Rightarrow> errno option \<times> 's"

definition pathExists :: "'s fsapi \<Rightarrow> string \<Rightarrow> 's \<Rightarrow> bool" where
  "pathExists F p s = (case fs_access F p s of None \<Rightarrow> True | Some e \<Rightarrow> False)"

definition ensureDirectory :: "'s fsapi \<Rightarrow> string \<Rightarrow> 's \<Rightarrow> errno option \<times> 's" where
  "ensureDirectory F p s = fs_mkdir F p s"

definition deleteEntry :: "'s fsapi \<Rightarrow> string \<Rightarrow> 's \<Rightarrow> errno option \<times> 's" where
  "deleteEntry F targetFs s = fs_rm F targetFs s"

definition copyEntry ::
  "'s fsapi \<Rightarrow> pathmod \<Rightarrow> string \<Rightarrow> string \<Rightarrow> 's \<Rightarrow> errno option \<times> 's" where
  "copyEntry F P sourceFs destinationFs s =
     (case fs_stat F sourceFs s of
        Inl e \<Rightarrow> (Some e, s)
      | Inr st \<Rightarrow>
          if st_isDirectory st then fs_cp F sourceFs destinationFs s
          else
            (case ensureDirectory F (path_dirname P destinationFs) s of
               (Some e, s1) \<Rightarrow> (Some e, s1)
             | (None, s1) \<Rightarrow> fs_copyFile F sourceFs destinationFs s1))"

definition moveEntry ::
  "'s fsapi \<Rightarrow> pathmod \<Rightarrow> string \<Rightarrow> string \<Rightarrow> 's \<Rightarrow> errno option \<times> 's" where
  "moveEntry F P sourceFs destinationFs s =
     (case ensureDirectory F (path_dirname P destinationFs) s of
        (Some e, s1) \<Rightarrow> (Some e, s1)
      | (None, s1) \<Rightarrow>
          (case fs_rename F sourceFs destinationFs s1 of
             (None, s2) \<Rightarrow> (None, s2)
           | (Some e, s2) \<Rightarrow>
               if e = EXDEV then
                 (case copyEntry F P sourceFs destinationFs s2 of
                    (Some e', s3) \<Rightarrow> (Some e', s3)
                  | (None, s3) \<Rightarrow> deleteEntry F sourceFs s3)
               else (Some e, s2)))"

section \<open>Directory listing\<close>

datatype fileType =
  Folder | Document | Spreadsheet | Presentation | Image | Video | Archive | Audio | Pdf | File

record fileEntry =
  e_id :: string
  e_name :: string
  e_type :: fileType
  e_size :: "nat option"
  e_modified :: timestamp
  e_path :: string
  e_service :: string

text \<open>
  \<^verbatim>\<open>toLowerCase\<close> on the letters A to Z; no other code unit below 256 becomes one
  of the characters that the extensions of \<^verbatim>\<open>inferFileType\<close> are written with.
\<close>

definition toLowerAscii :: "char \<Rightarrow> char" where
  "toLowerAscii c =
     (let n = (of_char c :: nat) in if 65 \<le> n \<and> n \<le> 90 then char_of (n + 32) else c)"

definition inferFileType :: "pathmod \<Rightarrow> string \<Rightarrow> bool \<Rightarrow> fileType" where
  "inferFileType P name isDirectory =
     (if isDirectory then Folder
      else
        (let ext = map toLowerAscii (path_extname P name) in
         if ext \<in> set [''.doc'', ''.docx'', ''.md'', ''.txt''] then Document
         else if ext \<in> set [''.xlsx'', ''.csv'', ''.tsv''] then Spreadsheet
         else if ext \<in> set [''.ppt'', ''.pptx''] then Presentation
         else if ext \<in> set [''.jpg'', ''.jpeg'', ''.png'', ''.gif'', ''.webp'', ''.svg''] then Image
         else if ext \<in> set [''.mp4'', ''.mkv'', ''.mov'', ''.avi''] then Video
         else if ext \<in> set [''.zip'', ''.rar'', ''.7z''] then Archive
         else if ext \<in> set [''.mp3'', ''.wav'', ''.flac''] then Audio
         else if ext = ''.pdf'' then Pdf
         else File))"

text \<open>
  \<^verbatim>\<open>Array.prototype.sort\<close> with a comparison function: the sort is stable, and an
  insertion sort from the right is the stable sort. \<^verbatim>\<open>String.prototype.localeCompare\<close>
  is the host's collation, a parameter \<open>lc\<close> of the listing functions.
\<close>

fun insertBy :: "('a \<Rightarrow> 'a \<Rightarrow> int) \<Rightarrow> 'a \<Rightarrow> 'a list \<Rightarrow> 'a list" where
  "insertBy cmp x [] = [x]"
| "insertBy cmp x (y # ys) = (if cmp x y \<le> 0 then x # y # ys else y # insertBy cmp x ys)"

definition sortBy :: "('a \<Rightarrow> 'a \<Rightarrow> int) \<Rightarrow> 'a list \<Rightarrow> 'a list" where
  "sortBy cmp xs = foldr (insertBy cmp) xs []"

text \<open>
  What the sort asks of a comparison function for its result to be sorted: that
  \<open>cmp a b \<le> 0\<close>, "a is not after b", is total and transitive.
\<close>

definition consistentComparator :: "('a \<Rightarrow> 'a \<Rightarrow> int) \<Rightarrow> bool" where
  "consistentComparator cmp =
     ((\<forall>a b. cmp a b \<le> 0 \<or> cmp b a \<le> 0)
      \<and> (\<forall>a b c. cmp a b \<le> 0 \<and> cmp b c \<le> 0 \<longrightarrow> cmp a c \<le> 0))"

text \<open>The comparison function of \<^verbatim>\<open>readDirectory\<close>.\<close>

definition compareEntries :: "(string \<Rightarrow> string \<Rightarrow> int) \<Rightarrow> fileEntry \<Rightarrow> fileEntry \<Rightarrow> int" where
  "compareEntries lc a b =
     (if e_type a = Folder \<and> e_type b \<noteq> Folder then - 1
      else if e_type a \<noteq> Folder \<and> e_type b = Folder then 1
      else lc (e_name a) (e_name b))"

text \<open>
  A promise that has settled. \<^verbatim>\<open>Promise.all\<close> is fulfilled with the list of the
  results when every promise is fulfilled and rejected as soon as one is rejected.
\<close>

datatype 'a settled = Fulfilled 'a | Rejected

fun promiseAll :: "'a settled list \<Rightarrow> 'a list settled" where
  "promiseAll [] = Fulfilled []"
| "promiseAll (Rejected # ps) = Rejected"
| "promiseAll (Fulfilled x # ps) =
     (case promiseAll ps of Rejected \<Rightarrow> Rejected | Fulfilled xs \<Rightarrow> Fulfilled (x # xs))"

text \<open>
  The callback of \<^verbatim>\<open>dirEntries.map\<close>. A failed \<^verbatim>\<open>stat\<close> is caught and gives
  \<^verbatim>\<open>null\<close>, here \<open>Fulfilled None\<close>. \<^verbatim>\<open>stats.mtime.toISOString()\<close> is outside
  that \<^verbatim>\<open>try\<close>: when it throws, the promise of the callback is rejected.
\<close>

definition readEntry ::
  "'s fsapi \<Rightarrow> pathmod \<Rightarrow> string \<Rightarrow> string \<Rightarrow> 's \<Rightarrow> dirent \<Rightarrow> fileEntry option settled" where
  "readEntry F P fsPath baseWithSlash s entry =
     (let entryFsPath = path_join P [fsPath, d_name entry] in
      case fs_stat F entryFsPath s of
        Inl e \<Rightarrow> Fulfilled None
      | Inr st \<Rightarrow>
          (let isDirectory = d_isDirectory entry;
               virtualPath = baseWithSlash @ d_name entry @ (if isDirectory then ''/'' else [])
           in case toISOString (st_mtime st) of
                None \<Rightarrow> Rejected
              | Some modified \<Rightarrow>
                  Fulfilled (Some \<lparr>e_id = createIdForPath (utf16 virtualPath),
                                   e_name = d_name entry,
                                   e_type = inferFileType P (d_name entry) isDirectory,
                                   e_size = (if isDirectory then None else Some (st_size st)),
                                   e_modified = modified,
                                   e_path = virtualPath,
                                   e_service = ''local''\<rparr>)))"

text \<open>Whether the \<^verbatim>\<open>stat\<close> of a child of \<open>fsPath\<close> fails.\<close>

definition statFails :: "'s fsapi \<Rightarrow> pathmod \<Rightarrow> string \<Rightarrow> 's \<Rightarrow> dirent \<Rightarrow> bool" where
  "statFails F P fsPath s entry =
     (case fs_stat F (path_join P [fsPath, d_name entry]) s of Inl e \<Rightarrow> True | Inr st \<Rightarrow> False)"

text \<open>
  Whether the \<^verbatim>\<open>stat\<close> of a child of \<open>fsPath\<close> gives a modification time that
  is not a valid date.
\<close>

definition dateFails :: "'s fsapi \<Rightarrow> pathmod \<Rightarrow> string \<Rightarrow> 's \<Rightarrow> dirent \<Rightarrow> bool" where
  "dateFails F P fsPath s entry =
     (case fs_stat F (path_join P [fsPath, d_name entry]) s of
        Inl e \<Rightarrow> False
      | Inr st \<Rightarrow> toISOString (st_mtime st) = None)"

text \<open>
  \<^verbatim>\<open>readDirectory\<close>: the outer \<^verbatim>\<open>catch\<close> turns a rejected \<^verbatim>\<open>readdir\<close> and
  a rejected \<^verbatim>\<open>Promise.all\<close> alike into the empty list.
\<close>

definition readDirectory ::
  "'s fsapi \<Rightarrow> pathmod \<Rightarrow> (string \<Rightarrow> string \<Rightarrow> int) \<Rightarrow> string \<Rightarrow> string \<Rightarrow> 's \<Rightarrow> fileEntry list" where
  "readDirectory F P lc fsPath virtualBase s =
     (let baseWithSlash = normalizeVirtualFolder virtualBase in
      case fs_readdir F fsPath s of
        Inl e \<Rightarrow> []
      | Inr dirEntries \<Rightarrow>
          (case promiseAll (map (readEntry F P fsPath baseWithSlash s) dirEntries) of
             Rejected \<Rightarrow> []
           | Fulfilled items \<Rightarrow>
               sortBy (compareEntries lc) (map the (filter (\<lambda>i. i \<noteq> None) items))))"

definition listSpecialDirectories :: "'s fsapi \<Rightarrow> pathmod \<Rightarrow> env \<Rightarrow> 's \<Rightarrow> fileEntry list" where
  "listSpecialDirectories F P E s =
     map (\<lambda>f. \<lparr>e_id = createIdForPath (utf16 (sf_virtual f)),
                e_name = sf_label f,
                e_type = Folder,
                e_size = None,
                e_modified = now E,
                e_path = normalizeVirtualFolder (sf_virtual f),
                e_service = ''local''\<rparr>)
         (filter (\<lambda>f. pathExists F (sf_fsPath f) s) (specialFolders P E))
     @ [\<lparr>e_id = createIdForPath (utf16 ''local://This PC/''),
         e_name = ''This PC'',
         e_type = Folder,
         e_size = None,
         e_modified = now E,
         e_path = ''local://This PC/'',
         e_service = ''local''\<rparr>]"

text \<open>The probe of the letters A to Z; \<open>drives\<close> is the \<^verbatim>\<open>Set\<close>, in insertion order.\<close>

fun probeDrives :: "'s fsapi \<Rightarrow> 's \<Rightarrow> nat list \<Rightarrow> string list \<Rightarrow> string list" where
  "probeDrives F s [] drives = drives"
| "probeDrives F s (code # codes) drives =
     (let candidate = [char_of code, CHR '':''] in
      if candidate \<in> set drives then probeDrives F s codes drives
      else
        (case fs_access F (candidate @ [backslash]) s of
           None \<Rightarrow> probeDrives F s codes (drives @ [candidate])
         | Some e \<Rightarrow> probeDrives F s codes drives))"

definition driveDisplayName :: "env \<Rightarrow> string \<Rightarrow> string" where
  "driveDisplayName E drive =
     (if drive = systemDrive E then systemDriveDisplayName E else ''Drive ('' @ drive @ '')'')"

definition listDriveRoots ::
  "'s fsapi \<Rightarrow> env \<Rightarrow> (string \<Rightarrow> string \<Rightarrow> int) \<Rightarrow> aliases \<Rightarrow> 's \<Rightarrow> fileEntry list \<times> aliases" where
  "listDriveRoots F E lc A s =
     (let drives = probeDrives F s [65..<91] [systemDrive E];
          items = map (\<lambda>drive.
                    \<lparr>e_id = createIdForPath (utf16 (''local://This PC/'' @ driveDisplayName E drive @ ''/'')),
                     e_name = driveDisplayName E drive,
                     e_type = Folder,
                     e_size = None,
                     e_modified = now E,
                     e_path = ''local://This PC/'' @ driveDisplayName E drive @ ''/'',
                     e_service = ''local''\<rparr>) drives
      in (sortBy (\<lambda>a b. lc (e_name a) (e_name b)) items,
          fold (\<lambda>drive m. m(driveDisplayName E drive \<mapsto> drive)) drives A))"

definition handleListDirectory ::
  "'s fsapi \<Rightarrow> pathmod \<Rightarrow> env \<Rightarrow> (string \<Rightarrow> string \<Rightarrow> int) \<Rightarrow> aliases \<Rightarrow> string \<Rightarrow> 's
     \<Rightarrow> (error + fileEntry list) \<times> aliases" where
  "handleListDirectory F P E lc A virtualPath s =
     (case resolveLocalVirtualPath P E A virtualPath of
        (Inl e, A1) \<Rightarrow> (Inl e, A1)
      | (Inr Root, A1) \<Rightarrow> (Inr (listSpecialDirectories F P E s), A1)
      | (Inr Drives, A1) \<Rightarrow> (case listDriveRoots F E lc A1 s of (l, A2) \<Rightarrow> (Inr l, A2))
      | (Inr (Entry fsPath isDirectory baseVirtual), A1) \<Rightarrow>
          if \<not> isDirectory then (Inl CannotListFile, A1)
          else (Inr (readDirectory F P lc fsPath baseVirtual s), A1))"

section \<open>Copy and move\<close>

record copyItem =
  item_source :: string
  item_destination :: string

record opResult =
  r_success :: bool
  r_items :: "copyItem list"

definition normalizeDestinationVirtual :: "string \<Rightarrow> string" where
  "normalizeDestinationVirtual destination =
     (if endsWith destination ''/'' then destination else destination @ ''/'')"

text \<open>
  One pass of the body of \<^verbatim>\<open>for (const sourceVirtual of sources)\<close>: \<open>Inl\<close> is a
  throw, \<open>Inr None\<close> the \<^verbatim>\<open>continue\<close>, \<open>Inr (Some item)\<close> the item pushed onto
  \<^verbatim>\<open>results\<close>.
\<close>

definition copyStep ::
  "'s fsapi \<Rightarrow> pathmod \<Rightarrow> env \<Rightarrow> bool \<Rightarrow> string \<Rightarrow> string \<Rightarrow> string \<Rightarrow> aliases \<Rightarrow> 's
     \<Rightarrow> (error + copyItem option) \<times> aliases \<times> 's" where
  "copyStep F P E move destFs destVirtual sourceVirtual A s =
     (case resolveLocalVirtualPath P E A sourceVirtual of
        (Inl e, A1) \<Rightarrow> (Inl e, A1, s)
      | (Inr Root, A1) \<Rightarrow> (Inl (UnsupportedSource sourceVirtual), A1, s)
      | (Inr Drives, A1) \<Rightarrow> (Inl (UnsupportedSource sourceVirtual), A1, s)
      | (Inr (Entry sourceFs sourceIsDirectory sourceBase), A1) \<Rightarrow>
          (case fs_stat F sourceFs s of
             Inl e \<Rightarrow> (Inl (FsError e), A1, s)
           | Inr sourceStats \<Rightarrow>
               (let basename = path_basename P sourceFs;
                    targetFsPath = path_join P [destFs, basename];
                    resolvedSource = path_resolve P sourceFs;
                    resolvedDestination = path_resolve P targetFsPath
                in if resolvedSource = resolvedDestination then (Inr None, A1, s)
                   else if startsWith resolvedDestination (resolvedSource @ path_sep P) then
                     (Inl SelfContainment, A1, s)
                   else
                     (case (if move then moveEntry F P sourceFs targetFsPath s
                            else copyEntry F P sourceFs targetFsPath s) of
                        (Some e, s1) \<Rightarrow> (Inl (FsError e), A1, s1)
                      | (None, s1) \<Rightarrow>
                          (Inr (Some \<lparr>item_source = sourceVirtual,
                                       item_destination = destVirtual @ basename
                                         @ (if st_isDirectory sourceStats then ''/'' else [])\<rparr>),
                           A1, s1)))))"

fun copyLoop ::
  "'s fsapi \<Rightarrow> pathmod \<Rightarrow> env \<Rightarrow> bool \<Rightarrow> string \<Rightarrow> string \<Rightarrow> string list \<Rightarrow> copyItem list
     \<Rightarrow> aliases \<Rightarrow> 's \<Rightarrow> (error + copyItem list) \<times> aliases \<times> 's" where
  "copyLoop F P E move destFs destVirtual [] results A s = (Inr results, A, s)"
| "copyLoop F P E move destFs destVirtual (sourceVirtual # rest) results A s =
     (case copyStep F P E move destFs destVirtual sourceVirtual A s of
        (Inl e, A1, s1) \<Rightarrow> (Inl e, A1, s1)
      | (Inr None, A1, s1) \<Rightarrow> copyLoop F P E move destFs destVirtual rest results A1 s1
      | (Inr (Some item), A1, s1) \<Rightarrow>
          copyLoop F P E move destFs destVirtual rest (results @ [item]) A1 s1)"

definition performCopyOrMove ::
  "'s fsapi \<Rightarrow> pathmod \<Rightarrow> env \<Rightarrow> aliases \<Rightarrow> string list \<Rightarrow> string \<Rightarrow> bool \<Rightarrow> 's
     \<Rightarrow> (error + opResult) \<times> aliases \<times> 's" where
  "performCopyOrMove F P E A sources destination move s =
     (if sources = [] then (Inl NoSourceItems, A, s)
      else
        (let destVirtual = normalizeDestinationVirtual destination in
         case resolveLocalVirtualPath P E A destVirtual of
           (Inl e, A1) \<Rightarrow> (Inl e, A1, s)
         | (Inr Root, A1) \<Rightarrow> (Inl DestinationNotDirectory, A1, s)
         | (Inr Drives, A1) \<Rightarrow> (Inl DestinationNotDirectory, A1, s)
         | (Inr (Entry destFs destIsDirectory destBase), A1) \<Rightarrow>
             if \<not> destIsDirectory then (Inl DestinationNotDirectory, A1, s)
             else
               (case (if pathExists F destFs s then (None, s) else ensureDirectory F destFs s) of
                  (Some e, s1) \<Rightarrow> (Inl (FsError e), A1, s1)
                | (None, s1) \<Rightarrow>
                    (case copyLoop F P E move destFs destVirtual sources [] A1 s1 of
                       (Inl e, A2, s2) \<Rightarrow> (Inl e, A2, s2)
                     | (Inr results, A2, s2) \<Rightarrow>
                         (Inr \<lparr>r_success = True, r_items = results\<rparr>, A2, s2)))))"

text \<open>\<^verbatim>\<open>handleDeleteItems\<close>: the loop, then the handler.\<close>

fun deleteLoop ::
  "'s fsapi \<Rightarrow> pathmod \<Rightarrow> env \<Rightarrow> string list \<Rightarrow> aliases \<Rightarrow> 's \<Rightarrow> error option \<times> aliases \<times> 's" where
  "deleteLoop F P E [] A s = (None, A, s)"
| "deleteLoop F P E (target # rest) A s =
     (case resolveLocalVirtualPath P E A target of
        (Inl e, A1) \<Rightarrow> (Some e, A1, s)
      | (Inr Root, A1) \<Rightarrow> (Some (UnsupportedTarget target), A1, s)
      | (Inr Drives, A1) \<Rightarrow> (Some (UnsupportedTarget target), A1, s)
      | (Inr (Entry fsPath isDirectory baseVirtual), A1) \<Rightarrow>
          (case deleteEntry F fsPath s of
             (Some e, s1) \<Rightarrow> (Some (FsError e), A1, s1)
           | (None, s1) \<Rightarrow> deleteLoop F P E rest A1 s1))"

definition handleDeleteItems ::
  "'s fsapi \<Rightarrow> pathmod \<Rightarrow> env \<Rightarrow> aliases \<Rightarrow> string list \<Rightarrow> 's \<Rightarrow> error option \<times> aliases \<times> 's" where
  "handleDeleteItems F P E A targets s =
     (if targets = [] then (Some NoTargets, A, s) else deleteLoop F P E targets A s)"

section \<open>A POSIX instance of the platform\<close>

text \<open>
  The handlers above are written for every \<open>pathmod\<close> and every \<open>fsapi\<close>. This
  section gives one of each to run them on: \<^verbatim>\<open>path.posix\<close> as Node.js
  implements it, and a file system that maps the component list of an absolute path to
  a node.
\<close>

definition joinWith :: "string \<Rightarrow> string list \<Rightarrow> string" where
  "joinWith sep segs = (case segs of [] \<Rightarrow> [] | x # xs \<Rightarrow> x @ concat (map (\<lambda>y. sep @ y) xs))"

text \<open>
  \<^verbatim>\<open>normalizeString\<close> of \<^verbatim>\<open>lib/path.js\<close> on the segments of a path: the
  accumulator holds the segments kept so far, last first.
\<close>

fun normalizeString :: "bool \<Rightarrow> string list \<Rightarrow> string list \<Rightarrow> string list" where
  "normalizeString allowAboveRoot acc [] = rev acc"
| "normalizeString allowAboveRoot acc (seg # segs) =
     (if seg = [] \<or> seg = ''.'' then normalizeString allowAboveRoot acc segs
      else if seg = ''..'' then
        (case acc of
           [] \<Rightarrow> normalizeString allowAboveRoot (if allowAboveRoot then [''..''] else []) segs
         | a # as \<Rightarrow>
             if a = ''..'' then normalizeString allowAboveRoot (''..'' # acc) segs
             else normalizeString allowAboveRoot as segs)
      else normalizeString allowAboveRoot (seg # acc) segs)"

definition isAbsolute :: "string \<Rightarrow> bool" where
  "isAbsolute p = startsWith p ''/''"

definition posix_normalize :: "string \<Rightarrow> string" where
  "posix_normalize p =
     (if p = [] then ''.''
      else
        (let body = joinWith ''/'' (normalizeString (\<not> isAbsolute p) [] (str_split CHR ''/'' p)) in
         if body = [] then (if isAbsolute p then ''/'' else if endsWith p ''/'' then ''./'' else ''.'')
         else (if isAbsolute p then ''/'' else []) @ body @ (if endsWith p ''/'' then ''/'' else [])))"

definition posix_join :: "string list \<Rightarrow> string" where
  "posix_join args =
     (case filter (\<lambda>a. a \<noteq> []) args of
        [] \<Rightarrow> ''.''
      | a # as \<Rightarrow> posix_normalize (joinWith ''/'' (a # as)))"

text \<open>
  The components of \<^verbatim>\<open>path.resolve(p)\<close> below the root, for the working directory
  \<open>cwd\<close> (an absolute path).
\<close>

definition posix_components :: "string \<Rightarrow> string \<Rightarrow> string list" where
  "posix_components cwd p =
     normalizeString False []
       (str_split CHR ''/'' (if isAbsolute p then p else if p = [] then cwd else cwd @ ''/'' @ p))"

definition posix_resolve :: "string \<Rightarrow> string \<Rightarrow> string" where
  "posix_resolve cwd p = ''/'' @ joinWith ''/'' (posix_components cwd p)"

definition posix_basename :: "string \<Rightarrow> string" where
  "posix_basename p = (case rev (segmentsOf p) of [] \<Rightarrow> [] | b # bs \<Rightarrow> b)"

definition posix_dirname :: "string \<Rightarrow> string" where
  "posix_dirname p =
     (if p = [] then ''.''
      else
        (let r = dropWhile (\<lambda>c. c \<noteq> CHR ''/'') (dropWhile (\<lambda>c. c = CHR ''/'') (rev (tl p))) in
         if r = [] then (if isAbsolute p then ''/'' else ''.'')
         else if isAbsolute p \<and> length r = 1 then ''//''
         else take (length r) p))"

definition lastDot :: "string \<Rightarrow> nat" where
  "lastDot b = length b - 1 - length (takeWhile (\<lambda>c. c \<noteq> CHR ''.'') (rev b))"

definition posix_extname :: "string \<Rightarrow> string" where
  "posix_extname p =
     (let b = posix_basename p in
      if CHR ''.'' \<notin> set b \<or> lastDot b = 0 \<or> b = ''..'' then [] else drop (lastDot b) b)"

definition posix_path :: "string \<Rightarrow> pathmod" where
  "posix_path cwd =
     \<lparr>path_sep = ''/'',
      path_join = posix_join,
      path_resolve = posix_resolve cwd,
      path_basename = posix_basename,
      path_dirname = posix_dirname,
      path_extname = posix_extname\<rparr>"

text \<open>
  The file system: a list of bindings from the components of an absolute path to a
  node, the first binding of a path being the one in force; the root is a directory.
  A file holds its bytes. \<open>dev\<close> gives the device that holds the children of a
  directory.
\<close>

datatype node = FileNode string | DirNode

type_synonym fstree = "(string list \<times> node) list"

definition lookupNode :: "fstree \<Rightarrow> string list \<Rightarrow> node option" where
  "lookupNode t p = (if p = [] then Some DirNode else map_of t p)"

definition px_access :: "string \<Rightarrow> string \<Rightarrow> fstree \<Rightarrow> errno option" where
  "px_access cwd p t =
     (case lookupNode t (posix_components cwd p) of None \<Rightarrow> Some ENOENT | Some n \<Rightarrow> None)"

definition px_stat :: "string \<Rightarrow> string \<Rightarrow> fstree \<Rightarrow> errno + stats" where
  "px_stat cwd p t =
     (case lookupNode t (posix_components cwd p) of
        None \<Rightarrow> Inl ENOENT
      | Some (FileNode bytes) \<Rightarrow> Inr \<lparr>st_isDirectory = False, st_size = length bytes, st_mtime = 0\<rparr>
      | Some DirNode \<Rightarrow> Inr \<lparr>st_isDirectory = True, st_size = 0, st_mtime = 0\<rparr>)"

definition px_readdir :: "string \<Rightarrow> string \<Rightarrow> fstree \<Rightarrow> errno + dirent list" where
  "px_readdir cwd p t =
     (let d = posix_components cwd p in
      case lookupNode t d of
        None \<Rightarrow> Inl ENOENT
      | Some (FileNode bytes) \<Rightarrow> Inl ENOTDIR
      | Some DirNode \<Rightarrow>
          Inr (remdups
                 (map (\<lambda>(q, n). \<lparr>d_name = last q, d_isDirectory = (n = DirNode)\<rparr>)
                    (filter (\<lambda>(q, n). q \<noteq> [] \<and> butlast q = d \<and> map_of t q = Some n) t))))"

text \<open>The directories that \<^verbatim>\<open>mkdir -p\<close> has to find or make: every prefix but the root.\<close>

definition ancestorsAndSelf :: "string list \<Rightarrow> string list list" where
  "ancestorsAndSelf d = tl (prefixes d)"

definition px_mkdir :: "string \<Rightarrow> string \<Rightarrow> fstree \<Rightarrow> errno option \<times> fstree" where
  "px_mkdir cwd p t =
     (let d = posix_components cwd p in
      if list_ex (\<lambda>q. q \<noteq> d \<and> (case map_of t q of Some (FileNode b) \<Rightarrow> True | _ \<Rightarrow> False))
           (ancestorsAndSelf d) then (Some ENOTDIR, t)
      else if (case lookupNode t d of Some (FileNode b) \<Rightarrow> True | _ \<Rightarrow> False) then (Some EEXIST, t)
      else (None, t @ map (\<lambda>q. (q, DirNode)) (filter (\<lambda>q. map_of t q = None) (ancestorsAndSelf d))))"

definition px_rm :: "string \<Rightarrow> string \<Rightarrow> fstree \<Rightarrow> errno option \<times> fstree" where
  "px_rm cwd p t =
     (let a = posix_components cwd p in
      case lookupNode t a of
        None \<Rightarrow> (None, t)
      | Some (FileNode bytes) \<Rightarrow> (None, filter (\<lambda>(q, n). q \<noteq> a) t)
      | Some DirNode \<Rightarrow> (None, filter (\<lambda>(q, n). \<not> prefix a q) t))"

definition px_copyFile :: "string \<Rightarrow> string \<Rightarrow> string \<Rightarrow> fstree \<Rightarrow> errno option \<times> fstree" where
  "px_copyFile cwd src dst t =
     (let a = posix_components cwd src; b = posix_components cwd dst in
      case lookupNode t a of
        None \<Rightarrow> (Some ENOENT, t)
      | Some DirNode \<Rightarrow> (Some EISDIR, t)
      | Some (FileNode bytes) \<Rightarrow>
          (case lookupNode t (butlast b) of
             None \<Rightarrow> (Some ENOENT, t)
           | Some (FileNode other) \<Rightarrow> (Some ENOTDIR, t)
           | Some DirNode \<Rightarrow>
               (case lookupNode t b of
                  Some DirNode \<Rightarrow> (Some EISDIR, t)
                | _ \<Rightarrow> (None, (b, FileNode bytes) # t))))"

definition rebase :: "string list \<Rightarrow> string list \<Rightarrow> string list \<Rightarrow> string list" where
  "rebase a b q = b @ drop (length a) q"

text \<open>
  \<^verbatim>\<open>cp(src, dest, {recursive: true, force: true})\<close> follows
  \<^verbatim>\<open>lib/internal/fs/cp/cp.js\<close> of Node.js, function by function, on a tree that
  holds files and directories only, all of them readable and writable. The copy works
  through the entries one after the other, so an error stops it where it occurs and
  leaves in place what was copied before.

  \<^verbatim>\<open>lstat\<close> as \<^verbatim>\<open>cp\<close> calls it: a path that runs through a file is
  \<^verbatim>\<open>ENOTDIR\<close>.
\<close>

definition throughFile :: "fstree \<Rightarrow> string list \<Rightarrow> bool" where
  "throughFile t p =
     list_ex (\<lambda>q. q \<noteq> p \<and> (case map_of t q of Some (FileNode b) \<Rightarrow> True | _ \<Rightarrow> False))
       (ancestorsAndSelf p)"

definition px_lstat :: "string \<Rightarrow> string \<Rightarrow> fstree \<Rightarrow> errno + stats" where
  "px_lstat cwd p t =
     (if throughFile t (posix_components cwd p) then Inl ENOTDIR else px_stat cwd p t)"

text \<open>\<^verbatim>\<open>mkdir(p)\<close> without \<^verbatim>\<open>recursive\<close>, and \<^verbatim>\<open>unlink(p)\<close>.\<close>

definition px_mkdir1 :: "string \<Rightarrow> string \<Rightarrow> fstree \<Rightarrow> errno option \<times> fstree" where
  "px_mkdir1 cwd p t =
     (let d = posix_components cwd p in
      if throughFile t d then (Some ENOTDIR, t)
      else if lookupNode t d \<noteq> None then (Some EEXIST, t)
      else
        (case lookupNode t (butlast d) of
           None \<Rightarrow> (Some ENOENT, t)
         | Some (FileNode bytes) \<Rightarrow> (Some ENOTDIR, t)
         | Some DirNode \<Rightarrow> (None, t @ [(d, DirNode)])))"

definition px_unlink :: "string \<Rightarrow> string \<Rightarrow> fstree \<Rightarrow> errno option \<times> fstree" where
  "px_unlink cwd p t =
     (let a = posix_components cwd p in
      if throughFile t a then (Some ENOTDIR, t)
      else
        (case lookupNode t a of
           None \<Rightarrow> (Some ENOENT, t)
         | Some DirNode \<Rightarrow> (Some EISDIR, t)
         | Some (FileNode bytes) \<Rightarrow> (None, filter (\<lambda>(q, n). q \<noteq> a) t)))"

text \<open>
  \<^verbatim>\<open>areIdentical\<close> compares device and inode: in a tree without links, two paths
  name one node when they resolve to the same components. \<^verbatim>\<open>isSrcSubdir\<close>
  compares the components of the two resolved paths.
\<close>

definition areIdentical :: "string \<Rightarrow> string \<Rightarrow> string \<Rightarrow> bool" where
  "areIdentical cwd src dest = (posix_components cwd src = posix_components cwd dest)"

definition isSrcSubdir :: "string \<Rightarrow> string \<Rightarrow> string \<Rightarrow> bool" where
  "isSrcSubdir cwd src dest = prefix (posix_components cwd src) (posix_components cwd dest)"

text \<open>
  \<^verbatim>\<open>getStats\<close> and \<^verbatim>\<open>checkPaths\<close>: the result is \<^verbatim>\<open>destStat\<close>, \<open>None\<close> when
  the destination does not exist.
\<close>

definition getStats :: "string \<Rightarrow> string \<Rightarrow> string \<Rightarrow> fstree \<Rightarrow> errno + stats \<times> stats option" where
  "getStats cwd src dest t =
     (case px_lstat cwd src t of
        Inl e \<Rightarrow> Inl e
      | Inr srcStat \<Rightarrow>
          (case px_lstat cwd dest t of
             Inl e \<Rightarrow> if e = ENOENT then Inr (srcStat, None) else Inl e
           | Inr destStat \<Rightarrow> Inr (srcStat, Some destStat)))"

definition checkPaths :: "string \<Rightarrow> string \<Rightarrow> string \<Rightarrow> fstree \<Rightarrow> errno + stats option" where
  "checkPaths cwd src dest t =
     (case getStats cwd src dest t of
        Inl e \<Rightarrow> Inl e
      | Inr (srcStat, destStat) \<Rightarrow>
          (case (case destStat of
                   None \<Rightarrow> None
                 | Some d \<Rightarrow>
                     if areIdentical cwd src dest then Some ERR_FS_CP_EINVAL
                     else if st_isDirectory srcStat \<and> \<not> st_isDirectory d then
                       Some ERR_FS_CP_DIR_TO_NON_DIR
                     else if \<not> st_isDirectory srcStat \<and> st_isDirectory d then
                       Some ERR_FS_CP_NON_DIR_TO_DIR
                     else None) of
             Some e \<Rightarrow> Inl e
           | None \<Rightarrow>
               if st_isDirectory srcStat \<and> isSrcSubdir cwd src dest then Inl ERR_FS_CP_EINVAL
               else Inr destStat))"

text \<open>
  \<^verbatim>\<open>checkParentPaths\<close> climbs from the parent of the destination until it meets
  the parent of the source, the root or a directory that does not exist, and fails when
  it meets the source. After the first step the path is a resolved one, whose parent
  has the components of the path but the last.
\<close>

function parentLoop ::
  "fstree \<Rightarrow> string list \<Rightarrow> string list \<Rightarrow> string list \<Rightarrow> errno option" where
  "parentLoop t a srcParent destParent =
     (if destParent = srcParent \<or> destParent = [] then None
      else if throughFile t destParent then Some ENOTDIR
      else
        (case lookupNode t destParent of
           None \<Rightarrow> None
         | Some n \<Rightarrow>
             if destParent = a then Some ERR_FS_CP_EINVAL
             else parentLoop t a srcParent (butlast destParent)))"
  by pat_completeness auto
termination
  by (relation "measure (\<lambda>(t, a, srcParent, destParent). length destParent)") auto

definition checkParentPaths :: "string \<Rightarrow> string \<Rightarrow> string \<Rightarrow> fstree \<Rightarrow> errno option" where
  "checkParentPaths cwd src dest t =
     parentLoop t (posix_components cwd src)
       (posix_components cwd (posix_dirname src)) (posix_components cwd (posix_dirname dest))"

text \<open>
  \<^verbatim>\<open>getStatsForCopy\<close> with \<^verbatim>\<open>onDir\<close>, \<^verbatim>\<open>mkDirAndCopy\<close>, \<^verbatim>\<open>onFile\<close> and
  \<^verbatim>\<open>mayCopyFile\<close>, and the loop of \<^verbatim>\<open>copyDir\<close> over the names that the source
  directory has when the copy reaches it. \<open>k\<close> counts the levels that the copy may
  still descend. \<^verbatim>\<open>cp\<close> starts it at the length of the longest path of the tree, and
  no entry that the copy reads lies deeper: what \<^verbatim>\<open>cp\<close> writes below the source,
  when the destination is above it, has a shorter path than what it was copied from.
\<close>

fun getStatsForCopy ::
  "string \<Rightarrow> nat \<Rightarrow> stats option \<Rightarrow> string \<Rightarrow> string \<Rightarrow> fstree \<Rightarrow> errno option \<times> fstree"
and copyDir ::
  "string \<Rightarrow> nat \<Rightarrow> string list \<Rightarrow> string \<Rightarrow> string \<Rightarrow> fstree \<Rightarrow> errno option \<times> fstree"
where
  "getStatsForCopy cwd k destStat src dest t =
     (case px_lstat cwd src t of
        Inl e \<Rightarrow> (Some e, t)
      | Inr srcStat \<Rightarrow>
          if st_isDirectory srcStat then
            (case (if destStat = None then px_mkdir1 cwd dest t else (None, t)) of
               (Some e, t1) \<Rightarrow> (Some e, t1)
             | (None, t1) \<Rightarrow>
                 (case px_readdir cwd src t1 of
                    Inl e \<Rightarrow> (Some e, t1)
                  | Inr entries \<Rightarrow>
                      (case k of
                         0 \<Rightarrow> (None, t1)
                       | Suc j \<Rightarrow> copyDir cwd j (map d_name entries) src dest t1)))
          else
            (case (if destStat = None then (None, t) else px_unlink cwd dest t) of
               (Some e, t1) \<Rightarrow> (Some e, t1)
             | (None, t1) \<Rightarrow> px_copyFile cwd src dest t1))"
| "copyDir cwd k [] src dest t = (None, t)"
| "copyDir cwd k (name # names) src dest t =
     (let srcItem = posix_join [src, name]; destItem = posix_join [dest, name] in
      case checkPaths cwd srcItem destItem t of
        Inl e \<Rightarrow> (Some e, t)
      | Inr destStat \<Rightarrow>
          (case getStatsForCopy cwd k destStat srcItem destItem t of
             (Some e, t1) \<Rightarrow> (Some e, t1)
           | (None, t1) \<Rightarrow> copyDir cwd k names src dest t1))"

definition longestPath :: "fstree \<Rightarrow> nat" where
  "longestPath t = foldr (\<lambda>(q, n) m. max (length q) m) t 0"

text \<open>\<^verbatim>\<open>checkParentDir\<close>, which makes the parent of the destination when it is missing.\<close>

definition checkParentDir ::
  "string \<Rightarrow> stats option \<Rightarrow> string \<Rightarrow> string \<Rightarrow> fstree \<Rightarrow> errno option \<times> fstree" where
  "checkParentDir cwd destStat src dest t =
     (let destParent = posix_dirname dest in
      case (case px_lstat cwd destParent t of
              Inl e \<Rightarrow> if e = ENOENT then px_mkdir cwd destParent t else (Some e, t)
            | Inr st \<Rightarrow> (None, t)) of
        (Some e, t1) \<Rightarrow> (Some e, t1)
      | (None, t1) \<Rightarrow> getStatsForCopy cwd (longestPath t1) destStat src dest t1)"

definition px_cp :: "string \<Rightarrow> string \<Rightarrow> string \<Rightarrow> fstree \<Rightarrow> errno option \<times> fstree" where
  "px_cp cwd src dest t =
     (case checkPaths cwd src dest t of
        Inl e \<Rightarrow> (Some e, t)
      | Inr destStat \<Rightarrow>
          (case checkParentPaths cwd src dest t of
             Some e \<Rightarrow> (Some e, t)
           | None \<Rightarrow> checkParentDir cwd destStat src dest t))"

text \<open>
  \<^verbatim>\<open>rename(src, dst)\<close>: the two parent directories must be on one device; a
  directory replaces nothing but an empty directory, a file nothing but a file.
\<close>

definition px_rename ::
  "string \<Rightarrow> (string list \<Rightarrow> nat) \<Rightarrow> string \<Rightarrow> string \<Rightarrow> fstree \<Rightarrow> errno option \<times> fstree" where
  "px_rename cwd dev src dst t =
     (let a = posix_components cwd src; b = posix_components cwd dst in
      if dev (butlast a) \<noteq> dev (butlast b) then (Some EXDEV, t)
      else
        (case lookupNode t a of
           None \<Rightarrow> (Some ENOENT, t)
         | Some n \<Rightarrow>
             (case lookupNode t (butlast b) of
                None \<Rightarrow> (Some ENOENT, t)
              | Some (FileNode other) \<Rightarrow> (Some ENOTDIR, t)
              | Some DirNode \<Rightarrow>
                  if a = b then (None, t)
                  else
                    (case n of
                       FileNode bytes \<Rightarrow>
                         if lookupNode t b = Some DirNode then (Some EISDIR, t)
                         else (None, (b, FileNode bytes) # filter (\<lambda>(q, m). q \<noteq> a) t)
                     | DirNode \<Rightarrow>
                         if prefix a b then (Some EINVAL, t)
                         else if (case lookupNode t b of Some (FileNode other) \<Rightarrow> True | _ \<Rightarrow> False)
                           then (Some ENOTDIR, t)
                         else if list_ex (\<lambda>(q, m). strict_prefix b q) t then (Some ENOTEMPTY, t)
                         else
                           (None, map (\<lambda>(q, m). (if prefix a q then rebase a b q else q, m))
                                    (filter (\<lambda>(q, m). \<not> prefix b q) t))))))"

definition posix_fs :: "string \<Rightarrow> (string list \<Rightarrow> nat) \<Rightarrow> fstree fsapi" where
  "posix_fs cwd dev =
     \<lparr>fs_access = px_access cwd,
      fs_stat = px_stat cwd,
      fs_readdir = px_readdir cwd,
      fs_mkdir = px_mkdir cwd,
      fs_cp = px_cp cwd,
      fs_copyFile = px_copyFile cwd,
      fs_rename = px_rename cwd dev,
      fs_rm = px_rm cwd\<rparr>"

text \<open>A comparison of strings by code unit, one consistent \<^verbatim>\<open>localeCompare\<close>.\<close>

fun codeUnitCompare :: "string \<Rightarrow> string \<Rightarrow> int" where
  "codeUnitCompare [] [] = 0"
| "codeUnitCompare [] (y # ys) = - 1"
| "codeUnitCompare (x # xs) [] = 1"
| "codeUnitCompare (x # xs) (y # ys) =
     (if (of_char x :: nat) < of_char y then - 1
      else if (of_char y :: nat) < of_char x then 1
      else codeUnitCompare xs ys)"

section \<open>Concrete inputs\<close>

text \<open>
  A home directory \<^verbatim>\<open>/h\<close> that holds a desktop with a file and a folder, on a
  machine whose tree below \<^verbatim>\<open>/mnt\<close> is another device.
\<close>

definition P0 :: pathmod where
  "P0 = posix_path ''/''"

definition E0 :: env where
  "E0 = \<lparr>homedir = ''/h'', envSystemDrive = None, now = 0\<rparr>"

definition aliases0 :: aliases where
  "aliases0 = driveAliasMap0 E0"

definition T0 :: fstree where
  "T0 = [([''h''], DirNode),
         ([''h'', ''Desktop''], DirNode),
         ([''h'', ''Desktop'', ''a.txt''], FileNode ''hi''),
         ([''h'', ''Desktop'', ''sub''], DirNode)]"



definition dev0 :: "string list \<Rightarrow> nat" where
  "dev0 p = (if prefix [''mnt''] p then 1 else 0)"

definition F0 :: "fstree fsapi" where
  "F0 = posix_fs ''/'' dev0"

text \<open>The same machine when \<^verbatim>\<open>sub\<close> vanishes between the listing and its \<^verbatim>\<open>stat\<close>.\<close>

definition F1 :: "fstree fsapi" where
  "F1 = F0\<lparr>fs_stat := (\<lambda>p t. if p = ''/h/Desktop/sub'' then Inl ENOENT else fs_stat F0 p t)\<rparr>"

text \<open>
  The same machine when \<^verbatim>\<open>a.txt\<close> carries a modification time beyond the range
  of a \<^verbatim>\<open>Date\<close>.
\<close>

definition F2 :: "fstree fsapi" where
  "F2 = F0\<lparr>fs_stat := (\<lambda>p t. if p = ''/h/Desktop/a.txt''
                                then Inr \<lparr>st_isDirectory = False, st_size = 2,
                                          st_mtime = 10000000000000000\<rparr>
                                else fs_stat F0 p t)\<rparr>"

section \<open>Identifiers\<close>

lemma hexDigit_inj: "m < 16 \<Longrightarrow> n < 16 \<Longrightarrow> hexDigit m = hexDigit n \<Longrightarrow> m = n"
  unfolding hexDigit_def
  by (subst (asm) nth_eq_iff_index_eq) simp_all

lemma hexOfByte_inj: "hexOfByte a = hexOfByte b \<Longrightarrow> a = b"
proof -
  assume h: "hexOfByte a = hexOfByte b"
  have la: "unat a < 256" and lb: "unat b < 256"
    using unsigned_less [of a, where ?'a = nat] unsigned_less [of b, where ?'a = nat] by simp_all
  from h have d: "hexDigit (unat a div 16) = hexDigit (unat b div 16)"
    and m: "hexDigit (unat a mod 16) = hexDigit (unat b mod 16)"
    by (simp_all add: hexOfByte_def)
  from d la lb have "unat a div 16 = unat b div 16"
    by (intro hexDigit_inj) (simp_all add: less_mult_imp_div_less)
  moreover from m have "unat a mod 16 = unat b mod 16"
    by (intro hexDigit_inj) simp_all
  ultimately have "unat a = unat b"
    by (metis div_mult_mod_eq)
  then show "a = b" by (rule word_unat_eq_iff [THEN iffD2])
qed

lemma hexOfBytes_inj: "hexOfBytes xs = hexOfBytes ys \<Longrightarrow> xs = ys"
proof (induction xs arbitrary: ys)
  case Nil
  then show ?case by (cases ys) (simp_all add: hexOfBytes_def hexOfByte_def)
next
  case (Cons x xs)
  show ?case
  proof (cases ys)
    case Nil
    with Cons.prems show ?thesis by (simp add: hexOfBytes_def hexOfByte_def)
  next
    case (Cons y ys')
    with Cons.prems have "hexOfByte x @ hexOfBytes xs = hexOfByte y @ hexOfBytes ys'"
      by (simp add: hexOfBytes_def)
    moreover have "length (hexOfByte x) = length (hexOfByte y)"
      by (simp add: hexOfByte_def)
    ultimately have "hexOfByte x = hexOfByte y" "hexOfBytes xs = hexOfBytes ys'"
      by simp_all
    with Cons.IH Cons show ?thesis by (simp add: hexOfByte_inj)
  qed
qed

text \<open>
  Claim C8, as the code has it. \<^verbatim>\<open>createIdForPath\<close> is a function of the path alone,
  so two calls on one path agree. It is not free of collisions: two paths get the same
  identifier exactly when the SHA-1 digests of their UTF-8 encodings are the same,
  because the hexadecimal rendering of a digest loses nothing.
\<close>

theorem createIdForPath_collides_iff:
  "createIdForPath p1 = createIdForPath p2 \<longleftrightarrow> sha1 (utf8 p1) = sha1 (utf8 p2)"
  unfolding createIdForPath_def using hexOfBytes_inj by auto

text \<open>
  Claim C8 as stated fails: the strings that consist of the unpaired surrogate
  \<^verbatim>\<open>\uD800\<close> and of the unpaired surrogate \<^verbatim>\<open>\uD801\<close> differ, both are
  encoded as U+FFFD, and so they have one identifier.
\<close>

theorem createIdForPath_collision:
  "createIdForPath [0xD800] = createIdForPath [0xD801] \<and> [0xD800 :: 16 word] \<noteq> [0xD801]"
  by (simp add: createIdForPath_def isHighSurrogate_def isLowSurrogate_def)

section \<open>The resolver\<close>

text \<open>
  Claim C3, as the code has it. The resolver accepts one scheme: it fails with the
  unsupported-scheme error exactly when the path, with every run of backslashes read
  as one slash, does not start with \<^verbatim>\<open>local://\<close>.
\<close>

theorem resolve_unsupported_scheme_iff:
  "(\<exists>q. fst (resolveLocalVirtualPath P E A p) = Inl (UnsupportedScheme q))
     \<longleftrightarrow> \<not> startsWith (sanitizeVirtualPath p) ''local://''"
  by (auto simp: resolveLocalVirtualPath_def Let_def split: option.splits prod.splits)

text \<open>
  Claim C3 as stated fails: \<^verbatim>\<open>gdrive://docs/\<close> starts with the prefix of one of
  the five schemes, and the resolver rejects it on account of its scheme.
\<close>

theorem resolve_gdrive_unsupported:
  "startsWith ''gdrive://docs/'' ''gdrive://''
     \<and> fst (resolveLocalVirtualPath P0 E0 (driveAliasMap0 E0) ''gdrive://docs/'')
         = Inl (UnsupportedScheme ''gdrive://docs/'')"
  by code_simp

lemma matchSpecialFolder_isDirectory:
  "matchSpecialFolder P s fs = Some (Entry f d b) \<Longrightarrow>
     d = (endsWith s ''/'' \<or> segmentsOf (drop (length b) s) = [])"
proof (induction fs)
  case Nil
  then show ?case by simp
next
  case (Cons folder fs)
  let ?base = "normalizeVirtualFolder (sf_virtual folder)"
  have e: "endsWith ?base ''/''"
    by (simp add: normalizeVirtualFolder_def)
  have nil: "segmentsOf [] = []"
    by (simp add: segmentsOf_def)
  show ?case
  proof (cases "s = ?base \<or> s = butlast ?base")
    case True
    with Cons.prems have "b = ?base" "d" by (auto simp: Let_def)
    with True e nil show ?thesis by auto
  next
    case False
    with Cons show ?thesis by (auto simp: Let_def split: if_splits)
  qed
qed

lemma driveMatch_drop:
  assumes "driveMatch s = Some (name, remainder)"
  shows "remainder = drop (length (''local://This PC/'' @ name @ ''/'')) s"
proof -
  from assms obtain rest where s: "s = ''local://This PC/'' @ rest"
    by (auto simp: driveMatch_def prefix_def split: if_splits)
  from assms s have n: "name = takeWhile (\<lambda>c. c \<noteq> CHR ''/'') rest"
    and r: "remainder = drop 1 (dropWhile (\<lambda>c. c \<noteq> CHR ''/'') rest)"
    by (auto simp: driveMatch_def Let_def split: if_splits)
  have "rest = name @ dropWhile (\<lambda>c. c \<noteq> CHR ''/'') rest"
    using n by simp
  then have "drop (length name + 1) rest = drop 1 (dropWhile (\<lambda>c. c \<noteq> CHR ''/'') rest)"
    by (metis add.commute append_eq_conv_conj drop_drop)
  with s r show ?thesis by simp
qed

lemma resolve_isDirectory:
  assumes "fst (resolveLocalVirtualPath P E A p) = Inr (Entry f d b)"
  shows "d = (endsWith (sanitizeVirtualPath p) ''/''
            \<or> segmentsOf (drop (length b) (sanitizeVirtualPath p)) = [])"
  using assms
  by (auto simp: resolveLocalVirtualPath_def Let_def
      dest!: matchSpecialFolder_isDirectory driveMatch_drop
      split: option.splits prod.splits if_splits)

text \<open>
  Claim C9. A path that resolves to an entry classified as a file makes
  \<^verbatim>\<open>handleListDirectory\<close> throw \<^verbatim>\<open>Cannot list contents of a file path\<close>; the
  handler returns a list exactly for the root, the drive container and the entries
  classified as directories; and an entry is classified as a file exactly when the
  path has no trailing slash and at least one segment below the virtual base of the
  special folder or drive.
\<close>

theorem listDirectory_file_path:
  "(\<forall>f b. fst (resolveLocalVirtualPath P E A p) = Inr (Entry f False b) \<longrightarrow>
        fst (handleListDirectory F P E lc A p s) = Inl CannotListFile)
   \<and> ((\<exists>l. fst (handleListDirectory F P E lc A p s) = Inr l) \<longleftrightarrow>
        (fst (resolveLocalVirtualPath P E A p) = Inr Root
         \<or> fst (resolveLocalVirtualPath P E A p) = Inr Drives
         \<or> (\<exists>f b. fst (resolveLocalVirtualPath P E A p) = Inr (Entry f True b))))
   \<and> (\<forall>f d b. fst (resolveLocalVirtualPath P E A p) = Inr (Entry f d b) \<longrightarrow>
        d = (endsWith (sanitizeVirtualPath p) ''/''
             \<or> segmentsOf (drop (length b) (sanitizeVirtualPath p)) = []))"
proof (intro conjI allI impI)
  fix f b
  assume "fst (resolveLocalVirtualPath P E A p) = Inr (Entry f False b)"
  then show "fst (handleListDirectory F P E lc A p s) = Inl CannotListFile"
    by (cases "resolveLocalVirtualPath P E A p") (simp add: handleListDirectory_def)
next
  show "(\<exists>l. fst (handleListDirectory F P E lc A p s) = Inr l) \<longleftrightarrow>
        (fst (resolveLocalVirtualPath P E A p) = Inr Root
         \<or> fst (resolveLocalVirtualPath P E A p) = Inr Drives
         \<or> (\<exists>f b. fst (resolveLocalVirtualPath P E A p) = Inr (Entry f True b)))"
    by (cases "resolveLocalVirtualPath P E A p")
      (auto simp: handleListDirectory_def split: sum.splits resolved.splits prod.splits if_splits)
next
  fix f d b
  assume "fst (resolveLocalVirtualPath P E A p) = Inr (Entry f d b)"
  then show "d = (endsWith (sanitizeVirtualPath p) ''/''
             \<or> segmentsOf (drop (length b) (sanitizeVirtualPath p)) = [])"
    by (rule resolve_isDirectory)
qed

theorem listDirectory_file_path_witness:
  "fst (resolveLocalVirtualPath P0 E0 (driveAliasMap0 E0) ''local://Desktop/a.txt'')
     = Inr (Entry ''/h/Desktop/a.txt'' False ''local://Desktop/'')
   \<and> fst (handleListDirectory F0 P0 E0 codeUnitCompare (driveAliasMap0 E0) ''local://Desktop/a.txt'' T0)
     = Inl CannotListFile
   \<and> \<not> endsWith (sanitizeVirtualPath ''local://Desktop/a.txt'') ''/''
   \<and> segmentsOf (drop (length ''local://Desktop/'') (sanitizeVirtualPath ''local://Desktop/a.txt''))
     = [''a.txt'']"
proof -
  have h: "fst (resolveLocalVirtualPath P0 E0 (driveAliasMap0 E0) ''local://Desktop/a.txt'')
     = Inr (Entry ''/h/Desktop/a.txt'' False ''local://Desktop/'')"
    by code_simp
  have c: "fst (handleListDirectory F0 P0 E0 codeUnitCompare (driveAliasMap0 E0) ''local://Desktop/a.txt'' T0)
     = Inl CannotListFile"
    using listDirectory_file_path
      [of P0 E0 "driveAliasMap0 E0" "''local://Desktop/a.txt''" F0 codeUnitCompare T0] h
    by blast
  have e: "\<not> endsWith (sanitizeVirtualPath ''local://Desktop/a.txt'') ''/''"
    by code_simp
  have g: "segmentsOf (drop (length ''local://Desktop/'') (sanitizeVirtualPath ''local://Desktop/a.txt''))
     = [''a.txt'']"
    by code_simp
  from h c e g show ?thesis by blast
qed

section \<open>Empty segments\<close>

lemma sanitize_append_plain:
  "c \<noteq> backslash \<Longrightarrow>
     sanitizeVirtualPath (u @ c # w) = sanitizeVirtualPath u @ c # sanitizeVirtualPath w"
proof (induction u rule: sanitizeVirtualPath.induct)
  case 1
  then show ?case by simp
next
  case (2 c0 cs)
  have dw: "dropWhile (\<lambda>d. d = backslash) (cs @ c # w) = dropWhile (\<lambda>d. d = backslash) cs @ c # w"
    using 2(3) by (simp add: dropWhile_append)
  show ?case
  proof (cases "c0 = backslash")
    case True
    with 2 dw show ?thesis by simp
  next
    case False
    with 2 show ?thesis by simp
  qed
qed

lemma sanitize_slashes:
  "sanitizeVirtualPath (replicate n CHR ''/'' @ v) = replicate n CHR ''/'' @ sanitizeVirtualPath v"
  by (induction n) (simp_all add: backslash_def)

lemma str_split_nonempty: "str_split sep x \<noteq> []"
  by (induction x) (auto split: list.splits)

lemma str_split_append:
  "str_split sep (x @ sep # y) = butlast (str_split sep x) @ [last (str_split sep x)] @ str_split sep y"
  by (induction x) (auto simp: str_split_nonempty split: list.splits)

lemma segmentsOf_append: "segmentsOf (x @ CHR ''/'' # y) = segmentsOf x @ segmentsOf y"
proof -
  have "str_split CHR ''/'' (x @ CHR ''/'' # y) = str_split CHR ''/'' x @ str_split CHR ''/'' y"
    using str_split_append [of "CHR ''/''" x y] str_split_nonempty [of "CHR ''/''" x] by simp
  then show ?thesis by (simp add: segmentsOf_def)
qed

lemma segmentsOf_slashes: "segmentsOf (replicate n CHR ''/'' @ y) = segmentsOf y"
  by (induction n) (simp_all add: segmentsOf_def)

lemma endsWith_slashes:
  "endsWith (x @ CHR ''/'' # replicate n CHR ''/'' @ y) ''/'' \<longleftrightarrow> endsWith (x @ CHR ''/'' # y) ''/''"
proof (cases y rule: rev_cases)
  case Nil
  then show ?thesis
    by (simp add: suffix_def) (metis append_Cons append_Nil append_assoc replicate_append_same)
next
  case (snoc ys c)
  then show ?thesis by (simp add: suffix_def)
qed

lemma specialFolders_virtual:
  assumes "folder \<in> set (specialFolders P E)"
  shows "sf_virtual folder \<in> {''local://Desktop/'', ''local://Documents/'', ''local://Downloads/'',
           ''local://Music/'', ''local://Pictures/'', ''local://Videos/''}"
  using assms by (auto simp: specialFolders_def)

lemma matchSpecialFolder_hit:
  assumes "folder \<in> set (specialFolders P E)" and "r \<noteq> []"
  shows "matchSpecialFolder P (sf_virtual folder @ r) (specialFolders P E)
       = Some (Entry (path_join P (sf_fsPath folder # segmentsOf r))
                 (endsWith (sf_virtual folder @ r) ''/'' \<or> segmentsOf r = []) (sf_virtual folder))"
proof -
  from assms(1) have "folder = specialFolders P E ! 0 \<or> folder = specialFolders P E ! 1
      \<or> folder = specialFolders P E ! 2 \<or> folder = specialFolders P E ! 3
      \<or> folder = specialFolders P E ! 4 \<or> folder = specialFolders P E ! 5"
    by (simp add: specialFolders_def)
  then show ?thesis
    using assms(2)
    by (elim disjE)
      (simp_all add: specialFolders_def normalizeVirtualFolder_def suffix_to_prefix Let_def)
qed

lemma matchSpecialFolder_base:
  "matchSpecialFolder P s fs = Some (Entry f d b) \<Longrightarrow>
     \<exists>folder \<in> set fs. b = normalizeVirtualFolder (sf_virtual folder)
        \<and> (s = b \<or> s = butlast b \<or> startsWith s b)"
  by (induction fs) (auto simp: Let_def split: if_splits)

lemma specialFolders_normal:
  "folder \<in> set (specialFolders P E) \<Longrightarrow> normalizeVirtualFolder (sf_virtual folder) = sf_virtual folder"
  by (auto simp: specialFolders_def normalizeVirtualFolder_def suffix_to_prefix)

lemma matchSpecialFolder_thisPC:
  "matchSpecialFolder P (''local://This PC/'' @ r) (specialFolders P E) = None"
  by (simp add: specialFolders_def normalizeVirtualFolder_def suffix_to_prefix Let_def)

lemma resolve_special:
  assumes "folder \<in> set (specialFolders P E)" and "r \<noteq> []"
    and "sanitizeVirtualPath p = sf_virtual folder @ r"
  shows "fst (resolveLocalVirtualPath P E A p)
       = Inr (Entry (path_join P (sf_fsPath folder # segmentsOf r))
                 (endsWith (sf_virtual folder @ r) ''/'' \<or> segmentsOf r = []) (sf_virtual folder))"
proof -
  have "startsWith (sf_virtual folder @ r) ''local://''"
    and "sf_virtual folder @ r \<noteq> ''local://''"
    and "sf_virtual folder @ r \<noteq> ''local://This PC/''"
    and "sf_virtual folder @ r \<noteq> ''local://This PC''"
    using specialFolders_virtual [OF assms(1)] by auto
  then show ?thesis
    using matchSpecialFolder_hit [OF assms(1,2)] assms(3)
    by (simp add: resolveLocalVirtualPath_def Let_def)
qed

lemma driveMatch_intro:
  assumes "name \<noteq> []" and "CHR ''/'' \<notin> set name" and "\<not> list_ex isLineTerminator z"
  shows "driveMatch (''local://This PC/'' @ name @ CHR ''/'' # z) = Some (name, z)"
proof -
  have "takeWhile (\<lambda>c. c \<noteq> CHR ''/'') (name @ CHR ''/'' # z) = name"
    using assms(2) by (subst takeWhile_append2) auto
  moreover have "dropWhile (\<lambda>c. c \<noteq> CHR ''/'') (name @ CHR ''/'' # z) = CHR ''/'' # z"
    using assms(2) by (subst dropWhile_append2) auto
  ultimately show ?thesis
    using assms(1,3) by (simp add: driveMatch_def Let_def)
qed

lemma driveMatch_shape:
  assumes "driveMatch s = Some (name, rem)"
  shows "name \<noteq> [] \<and> CHR ''/'' \<notin> set name \<and> \<not> list_ex isLineTerminator rem
       \<and> (s = ''local://This PC/'' @ name \<and> rem = []
           \<or> s = ''local://This PC/'' @ name @ CHR ''/'' # rem)"
proof -
  from assms obtain rest where s: "s = ''local://This PC/'' @ rest"
    by (auto simp: driveMatch_def prefix_def split: if_splits)
  let ?dw = "dropWhile (\<lambda>c. c \<noteq> CHR ''/'') rest"
  from assms s have n: "name = takeWhile (\<lambda>c. c \<noteq> CHR ''/'') rest"
    and r: "rem = drop 1 ?dw"
    and ne: "name \<noteq> []" and lt: "\<not> list_ex isLineTerminator rem"
    by (auto simp: driveMatch_def Let_def split: if_splits)
  have sl: "CHR ''/'' \<notin> set name"
    using n by (auto dest: set_takeWhileD)
  have rest: "rest = name @ ?dw" using n by simp
  have "?dw = [] \<and> rem = [] \<or> ?dw = CHR ''/'' # rem"
  proof (cases ?dw)
    case Nil
    with r show ?thesis by simp
  next
    case (Cons x xs)
    then have "x = CHR ''/''" using hd_dropWhile [of "\<lambda>c. c \<noteq> CHR ''/''" rest] by auto
    with Cons r show ?thesis by simp
  qed
  then show ?thesis
  proof
    assume "?dw = [] \<and> rem = []"
    with s rest ne sl lt show ?thesis by simp
  next
    assume "?dw = CHR ''/'' # rem"
    with rest have "rest = name @ CHR ''/'' # rem" by simp
    with s ne sl lt show ?thesis by simp
  qed
qed

lemma resolve_drive:
  assumes "name \<noteq> []" and "CHR ''/'' \<notin> set name" and "\<not> list_ex isLineTerminator z"
    and "sanitizeVirtualPath p = ''local://This PC/'' @ name @ CHR ''/'' # z"
    and "z \<noteq> []"
  shows "fst (resolveLocalVirtualPath P E A p)
       = (case fst (ensureDriveLetter A name) of
            None \<Rightarrow> Inl (UnknownDrive name)
          | Some driveLetter \<Rightarrow>
              if driveLetter = [] then Inl (UnknownDrive name)
              else Inr (Entry (path_join P ((driveLetter @ path_sep P) # segmentsOf z))
                     (endsWith (''local://This PC/'' @ name @ CHR ''/'' # z) ''/'' \<or> segmentsOf z = [])
                     (''local://This PC/'' @ name @ ''/'')))"
proof -
  have "''local://This PC/'' @ name @ CHR ''/'' # z \<noteq> ''local://This PC/''"
    using assms(1) by simp
  moreover have "''local://This PC/'' @ name @ CHR ''/'' # z \<noteq> ''local://This PC''"
    by simp
  ultimately show ?thesis
    using driveMatch_intro [OF assms(1,2,3)] assms(4)
      matchSpecialFolder_thisPC [of P "name @ CHR ''/'' # z" E]
    by (simp add: resolveLocalVirtualPath_def Let_def split: option.splits prod.splits)
qed

lemma resolve_entry_cases:
  assumes "fst (resolveLocalVirtualPath P E A p) = Inr (Entry f d b)"
  shows "matchSpecialFolder P (sanitizeVirtualPath p) (specialFolders P E) = Some (Entry f d b)
       \<or> (\<exists>name rem letter.
             driveMatch (sanitizeVirtualPath p) = Some (name, rem)
             \<and> fst (ensureDriveLetter A name) = Some letter \<and> letter \<noteq> []
             \<and> b = ''local://This PC/'' @ name @ ''/''
             \<and> f = path_join P ((letter @ path_sep P) # segmentsOf rem)
             \<and> d = (endsWith (sanitizeVirtualPath p) ''/'' \<or> segmentsOf rem = []))"
  using assms
  by (auto simp: resolveLocalVirtualPath_def Let_def split: option.splits prod.splits if_splits)

lemma prefix_of_longer:
  assumes "prefix b (x @ y)" and "length b \<le> length x"
  shows "\<exists>x'. x = b @ x'"
  using assms by (metis prefix_def prefix_length_prefix prefix_append prefixI)

text \<open>
  Claim C10. Below a special folder or a drive, empty segments do not count: if a path
  resolves to an entry and one of its slashes lies below the virtual base of that entry,
  then the path with \<open>n\<close> more slashes put after that slash resolves to the same entry,
  the same real path in particular. Both remainders have the same list of non-empty
  segments, and only that list is joined onto the real path of the folder or drive.
\<close>

theorem resolve_ignores_repeated_separators:
  assumes res: "fst (resolveLocalVirtualPath P E A (w @ ''/'' @ v)) = Inr (Entry f d b)"
    and len: "length b \<le> length (sanitizeVirtualPath w)"
  shows "fst (resolveLocalVirtualPath P E A (w @ ''/'' @ replicate n CHR ''/'' @ v))
       = Inr (Entry f d b)"
proof -
  let ?sw = "sanitizeVirtualPath w" and ?sv = "sanitizeVirtualPath v"
  let ?p2 = "w @ ''/'' @ replicate n CHR ''/'' @ v"
  have s1: "sanitizeVirtualPath (w @ ''/'' @ v) = ?sw @ CHR ''/'' # ?sv"
    using sanitize_append_plain [of "CHR ''/''" w v] by (simp add: backslash_def)
  have s2: "sanitizeVirtualPath ?p2 = ?sw @ CHR ''/'' # replicate n CHR ''/'' @ ?sv"
    using sanitize_append_plain [of "CHR ''/''" w "replicate n CHR ''/'' @ v"]
    by (simp add: backslash_def sanitize_slashes)
  from resolve_entry_cases [OF res]
  show ?thesis
  proof
    assume m: "matchSpecialFolder P (sanitizeVirtualPath (w @ ''/'' @ v)) (specialFolders P E)
                 = Some (Entry f d b)"
    from matchSpecialFolder_base [OF m] obtain folder
      where fo: "folder \<in> set (specialFolders P E)"
        and b: "b = sf_virtual folder"
        and c: "?sw @ CHR ''/'' # ?sv = b \<or> ?sw @ CHR ''/'' # ?sv = butlast b
                 \<or> startsWith (?sw @ CHR ''/'' # ?sv) b"
      using s1 by (auto simp: specialFolders_normal)
    have "length b < length (?sw @ CHR ''/'' # ?sv)"
      using len by simp
    then have "?sw @ CHR ''/'' # ?sv \<noteq> b" "?sw @ CHR ''/'' # ?sv \<noteq> butlast b"
      by (metis less_irrefl, metis length_butlast less_imp_diff_less less_irrefl)
    with c have "startsWith (?sw @ CHR ''/'' # ?sv) b" by simp
    with len obtain sw' where sw: "?sw = b @ sw'"
      using prefix_of_longer by blast
    have r1: "sw' @ CHR ''/'' # ?sv \<noteq> []" and r2: "sw' @ CHR ''/'' # replicate n CHR ''/'' @ ?sv \<noteq> []"
      by simp_all
    have seg: "segmentsOf (sw' @ CHR ''/'' # replicate n CHR ''/'' @ ?sv) = segmentsOf (sw' @ CHR ''/'' # ?sv)"
      by (simp add: segmentsOf_append segmentsOf_slashes)
    have e: "endsWith (b @ sw' @ CHR ''/'' # replicate n CHR ''/'' @ ?sv) ''/''
           \<longleftrightarrow> endsWith (b @ sw' @ CHR ''/'' # ?sv) ''/''"
      using endsWith_slashes [of "b @ sw'" n ?sv] by simp
    from m s1 sw b matchSpecialFolder_hit [OF fo r1]
    have fd: "f = path_join P (sf_fsPath folder # segmentsOf (sw' @ CHR ''/'' # ?sv))"
      "d = (endsWith (b @ sw' @ CHR ''/'' # ?sv) ''/'' \<or> segmentsOf (sw' @ CHR ''/'' # ?sv) = [])"
      by simp_all
    from s2 sw b have "sanitizeVirtualPath ?p2 = sf_virtual folder @ (sw' @ CHR ''/'' # replicate n CHR ''/'' @ ?sv)"
      by simp
    from resolve_special [OF fo r2 this, where A = A] fd seg e b
    show ?thesis by simp
  next
    assume "\<exists>name rem letter.
             driveMatch (sanitizeVirtualPath (w @ ''/'' @ v)) = Some (name, rem)
             \<and> fst (ensureDriveLetter A name) = Some letter \<and> letter \<noteq> []
             \<and> b = ''local://This PC/'' @ name @ ''/''
             \<and> f = path_join P ((letter @ path_sep P) # segmentsOf rem)
             \<and> d = (endsWith (sanitizeVirtualPath (w @ ''/'' @ v)) ''/'' \<or> segmentsOf rem = [])"
    then obtain name rem letter
      where dm: "driveMatch (?sw @ CHR ''/'' # ?sv) = Some (name, rem)"
        and le: "fst (ensureDriveLetter A name) = Some letter" "letter \<noteq> []"
        and b: "b = ''local://This PC/'' @ name @ ''/''"
        and f: "f = path_join P ((letter @ path_sep P) # segmentsOf rem)"
        and d: "d = (endsWith (?sw @ CHR ''/'' # ?sv) ''/'' \<or> segmentsOf rem = [])"
      using s1 by auto
    from driveMatch_shape [OF dm]
    have nm: "name \<noteq> []" "CHR ''/'' \<notin> set name" and lt: "\<not> list_ex isLineTerminator rem"
      and sh: "?sw @ CHR ''/'' # ?sv = ''local://This PC/'' @ name \<and> rem = []
             \<or> ?sw @ CHR ''/'' # ?sv = ''local://This PC/'' @ name @ CHR ''/'' # rem"
      by auto
    have "length (''local://This PC/'' @ name) < length (?sw @ CHR ''/'' # ?sv)"
      using len b by simp
    then have "?sw @ CHR ''/'' # ?sv \<noteq> ''local://This PC/'' @ name"
      by (metis less_irrefl)
    with sh b have full: "?sw @ CHR ''/'' # ?sv = b @ rem" by simp
    then have "prefix b (?sw @ CHR ''/'' # ?sv)" by simp
    with len obtain sw' where sw: "?sw = b @ sw'"
      using prefix_of_longer by blast
    with full have rem: "rem = sw' @ CHR ''/'' # ?sv" by simp
    let ?z = "sw' @ CHR ''/'' # replicate n CHR ''/'' @ ?sv"
    have z: "?z \<noteq> []" by simp
    have "set ?z = set rem"
      unfolding rem by (cases n) auto
    then have ltz: "\<not> list_ex isLineTerminator ?z"
      using lt unfolding list_ex_iff by blast
    have seg: "segmentsOf ?z = segmentsOf rem"
      using rem by (simp add: segmentsOf_append segmentsOf_slashes)
    have e: "endsWith (''local://This PC/'' @ name @ CHR ''/'' # ?z) ''/''
           \<longleftrightarrow> endsWith (?sw @ CHR ''/'' # ?sv) ''/''"
      using endsWith_slashes [of "b @ sw'" n ?sv] sw b by simp
    have "sanitizeVirtualPath ?p2 = ''local://This PC/'' @ name @ CHR ''/'' # ?z"
      using s2 sw b by simp
    from resolve_drive [OF nm ltz this z, where A = A and P = P and E = E] le f d seg e b
    show ?thesis by simp
  qed
qed

theorem resolve_ignores_repeated_separators_witness:
  "fst (resolveLocalVirtualPath P0 E0 (driveAliasMap0 E0) ''local://Desktop/a/b'')
     = Inr (Entry ''/h/Desktop/a/b'' False ''local://Desktop/'')
   \<and> length ''local://Desktop/'' \<le> length (sanitizeVirtualPath ''local://Desktop/a'')
   \<and> fst (resolveLocalVirtualPath P0 E0 (driveAliasMap0 E0) ''local://Desktop/a///b'')
     = Inr (Entry ''/h/Desktop/a/b'' False ''local://Desktop/'')"
proof -
  have h1: "fst (resolveLocalVirtualPath P0 E0 (driveAliasMap0 E0) (''local://Desktop/a'' @ ''/'' @ ''b''))
     = Inr (Entry ''/h/Desktop/a/b'' False ''local://Desktop/'')"
    by code_simp
  have h2: "length ''local://Desktop/'' \<le> length (sanitizeVirtualPath ''local://Desktop/a'')"
    by code_simp
  have e: "''local://Desktop/a'' @ ''/'' @ replicate 2 CHR ''/'' @ ''b'' = ''local://Desktop/a///b''"
    by code_simp
  from resolve_ignores_repeated_separators [OF h1 h2, of 2] e h1 h2
  show ?thesis by simp
qed

section \<open>Directory listings\<close>

lemma mset_insertBy: "mset (insertBy cmp x xs) = add_mset x (mset xs)"
  by (induction xs) auto

lemma mset_sortBy: "mset (sortBy cmp xs) = mset xs"
  unfolding sortBy_def by (induction xs) (auto simp: mset_insertBy)

lemma set_insertBy: "set (insertBy cmp x xs) = insert x (set xs)"
  by (induction xs) auto

lemma sorted_insertBy:
  assumes "consistentComparator cmp" and "sorted_wrt (\<lambda>a b. cmp a b \<le> 0) xs"
  shows "sorted_wrt (\<lambda>a b. cmp a b \<le> 0) (insertBy cmp x xs)"
  using assms(2)
proof (induction xs)
  case Nil
  then show ?case by simp
next
  case (Cons y ys)
  from assms(1) have tot: "cmp x y \<le> 0 \<or> cmp y x \<le> 0"
    and tr: "\<And>a b c. cmp a b \<le> 0 \<Longrightarrow> cmp b c \<le> 0 \<Longrightarrow> cmp a c \<le> 0"
    unfolding consistentComparator_def by blast+
  show ?case
  proof (cases "cmp x y \<le> 0")
    case True
    with Cons.prems tr show ?thesis by auto
  next
    case False
    with tot have "cmp y x \<le> 0" by simp
    with False Cons show ?thesis by (auto simp: set_insertBy)
  qed
qed

lemma sorted_sortBy:
  "consistentComparator cmp \<Longrightarrow> sorted_wrt (\<lambda>a b. cmp a b \<le> 0) (sortBy cmp xs)"
  unfolding sortBy_def by (induction xs) (auto intro: sorted_insertBy)

lemma compareEntries_consistent:
  assumes "consistentComparator lc"
  shows "consistentComparator (compareEntries lc)"
proof -
  from assms have tot: "\<And>a b. lc a b \<le> 0 \<or> lc b a \<le> 0"
    and tr: "\<And>a b c. lc a b \<le> 0 \<Longrightarrow> lc b c \<le> 0 \<Longrightarrow> lc a c \<le> 0"
    unfolding consistentComparator_def by blast+
  show ?thesis
    unfolding consistentComparator_def compareEntries_def
  proof (intro conjI allI impI)
    fix a b :: fileEntry
    show "(if e_type a = Folder \<and> e_type b \<noteq> Folder then - 1
           else if e_type a \<noteq> Folder \<and> e_type b = Folder then 1 else lc (e_name a) (e_name b)) \<le> 0
        \<or> (if e_type b = Folder \<and> e_type a \<noteq> Folder then - 1
           else if e_type b \<noteq> Folder \<and> e_type a = Folder then 1 else lc (e_name b) (e_name a)) \<le> 0"
      using tot [of "e_name a" "e_name b"] by auto
  next
    fix a b c :: fileEntry
    assume "(if e_type a = Folder \<and> e_type b \<noteq> Folder then - 1
           else if e_type a \<noteq> Folder \<and> e_type b = Folder then 1 else lc (e_name a) (e_name b)) \<le> 0
        \<and> (if e_type b = Folder \<and> e_type c \<noteq> Folder then - 1
           else if e_type b \<noteq> Folder \<and> e_type c = Folder then 1 else lc (e_name b) (e_name c)) \<le> 0"
    then show "(if e_type a = Folder \<and> e_type c \<noteq> Folder then - 1
           else if e_type a \<noteq> Folder \<and> e_type c = Folder then 1 else lc (e_name a) (e_name c)) \<le> 0"
      using tr [of "e_name a" "e_name b" "e_name c"] by (auto split: if_splits)
  qed
qed

lemma sorted_wrt_partition:
  assumes "sorted_wrt R xs" and "\<And>a b. R a b \<Longrightarrow> Q b \<Longrightarrow> Q a"
  shows "xs = filter Q xs @ filter (\<lambda>x. \<not> Q x) xs"
  using assms(1)
proof (induction xs)
  case Nil
  then show ?case by simp
next
  case (Cons x xs)
  show ?case
  proof (cases "Q x")
    case True
    with Cons show ?thesis by simp
  next
    case False
    with Cons.prems assms(2) have "\<forall>y\<in>set xs. \<not> Q y" by auto
    then have "filter Q xs = []" "filter (\<lambda>x. \<not> Q x) xs = xs"
      by (simp_all add: filter_empty_conv filter_id_conv)
    with False show ?thesis by simp
  qed
qed

lemma codeUnitCompare_sym: "codeUnitCompare a b \<le> 0 \<or> codeUnitCompare b a \<le> 0"
  by (induction a b rule: codeUnitCompare.induct) auto

lemma codeUnitCompare_Cons_le:
  "codeUnitCompare (x # xs) (y # ys) \<le> 0 \<longleftrightarrow>
     (of_char x :: nat) < of_char y \<or> ((of_char x :: nat) = of_char y \<and> codeUnitCompare xs ys \<le> 0)"
  by auto

lemma codeUnitCompare_trans:
  "codeUnitCompare a b \<le> 0 \<Longrightarrow> codeUnitCompare b c \<le> 0 \<Longrightarrow> codeUnitCompare a c \<le> 0"
proof (induction a arbitrary: b c)
  case Nil
  then show ?case by (cases c) simp_all
next
  case (Cons x xs)
  from Cons.prems(1) obtain y ys where b: "b = y # ys"
    by (cases b) simp_all
  from Cons.prems(2) b obtain z zs where c: "c = z # zs"
    by (cases c) simp_all
  from Cons.prems have p1: "codeUnitCompare (x # xs) (y # ys) \<le> 0"
    and p2: "codeUnitCompare (y # ys) (z # zs) \<le> 0"
    unfolding b c by blast+
  have xy: "(of_char x :: nat) < of_char y \<or> ((of_char x :: nat) = of_char y \<and> codeUnitCompare xs ys \<le> 0)"
    and yz: "(of_char y :: nat) < of_char z \<or> ((of_char y :: nat) = of_char z \<and> codeUnitCompare ys zs \<le> 0)"
    using p1 p2 unfolding codeUnitCompare_Cons_le by blast+
  from xy yz Cons.IH [of ys zs]
  have "(of_char x :: nat) < of_char z \<or> ((of_char x :: nat) = of_char z \<and> codeUnitCompare xs zs \<le> 0)"
    by linarith
  then show ?case
    unfolding c codeUnitCompare_Cons_le .
qed

lemma codeUnitCompare_consistent: "consistentComparator codeUnitCompare"
  unfolding consistentComparator_def
  using codeUnitCompare_sym codeUnitCompare_trans by blast

lemma desktop_readdir:
  "fs_readdir F0 ''/h/Desktop'' T0
     = Inr [\<lparr>d_name = ''a.txt'', d_isDirectory = False\<rparr>, \<lparr>d_name = ''sub'', d_isDirectory = True\<rparr>]"
  by code_simp

lemma desktop_readdir1:
  "fs_readdir F1 ''/h/Desktop'' T0
     = Inr [\<lparr>d_name = ''a.txt'', d_isDirectory = False\<rparr>, \<lparr>d_name = ''sub'', d_isDirectory = True\<rparr>]"
  by code_simp

lemma desktop_readdir2:
  "fs_readdir F2 ''/h/Desktop'' T0
     = Inr [\<lparr>d_name = ''a.txt'', d_isDirectory = False\<rparr>, \<lparr>d_name = ''sub'', d_isDirectory = True\<rparr>]"
  by code_simp

lemma desktop_stat:
  "fs_stat F0 (path_join P0 [''/h/Desktop'', ''a.txt'']) T0
     = Inr \<lparr>st_isDirectory = False, st_size = 2, st_mtime = 0\<rparr>"
  "fs_stat F0 (path_join P0 [''/h/Desktop'', ''sub'']) T0
     = Inr \<lparr>st_isDirectory = True, st_size = 0, st_mtime = 0\<rparr>"
  "fs_stat F1 (path_join P0 [''/h/Desktop'', ''a.txt'']) T0
     = Inr \<lparr>st_isDirectory = False, st_size = 2, st_mtime = 0\<rparr>"
  "fs_stat F1 (path_join P0 [''/h/Desktop'', ''sub'']) T0 = Inl ENOENT"
  "fs_stat F2 (path_join P0 [''/h/Desktop'', ''a.txt'']) T0
     = Inr \<lparr>st_isDirectory = False, st_size = 2, st_mtime = 10000000000000000\<rparr>"
  "fs_stat F2 (path_join P0 [''/h/Desktop'', ''sub'']) T0
     = Inr \<lparr>st_isDirectory = True, st_size = 0, st_mtime = 0\<rparr>"
  by code_simp+

lemma promiseAll_Rejected:
  "promiseAll ps = Rejected \<longleftrightarrow> Rejected \<in> set ps"
  by (induction ps rule: promiseAll.induct) (auto split: settled.splits)

lemma promiseAll_Fulfilled:
  "promiseAll ps = Fulfilled xs \<longleftrightarrow> ps = map Fulfilled xs"
proof (induction ps arbitrary: xs)
  case Nil
  then show ?case by auto
next
  case (Cons p ps)
  show ?case
  proof (cases p)
    case Rejected
    then show ?thesis by (cases xs) auto
  next
    case (Fulfilled x)
    show ?thesis
    proof (cases "promiseAll ps")
      case Rejected
      then have "ps \<noteq> map Fulfilled ys" for ys
        using Cons.IH [of ys] by simp
      with Rejected Fulfilled show ?thesis by (cases xs) auto
    next
      case (Fulfilled ys)
      then have "ps = map Fulfilled ys"
        using Cons.IH [of ys] by simp
      with Fulfilled \<open>p = Fulfilled x\<close> show ?thesis
        by (cases xs) (auto simp: inj_map_eq_map inj_def)
    qed
  qed
qed

lemma readEntry_Rejected:
  "readEntry F P fsPath b s d = Rejected \<longleftrightarrow> dateFails F P fsPath s d"
  by (simp add: readEntry_def dateFails_def Let_def split: sum.splits option.splits)

lemma readEntry_null:
  "readEntry F P fsPath b s d = Fulfilled None \<longleftrightarrow> statFails F P fsPath s d"
  by (simp add: readEntry_def statFails_def Let_def split: sum.splits option.splits)

lemma readEntry_name:
  "readEntry F P fsPath b s d = Fulfilled (Some e) \<Longrightarrow> e_name e = d_name d"
  by (auto simp: readEntry_def Let_def split: sum.splits option.splits)

lemma promiseAll_readEntry:
  "promiseAll (map (readEntry F P fsPath b s) des) = Rejected
     \<longleftrightarrow> list_ex (dateFails F P fsPath s) des"
proof -
  have "Rejected \<in> set (map (readEntry F P fsPath b s) des)
      \<longleftrightarrow> (\<exists>d\<in>set des. readEntry F P fsPath b s d = Rejected)"
    by (simp add: image_iff eq_commute)
  then show ?thesis
    by (simp add: promiseAll_Rejected list_ex_iff readEntry_Rejected)
qed

lemma kept_names:
  "map Fulfilled items = map (readEntry F P fsPath b s) des \<Longrightarrow>
   map e_name (map the (filter (\<lambda>i. i \<noteq> None) items))
     = map d_name (filter (\<lambda>d. \<not> statFails F P fsPath s d) des)"
proof (induction des arbitrary: items)
  case Nil
  then show ?case by simp
next
  case (Cons d des)
  then obtain i rest where items: "items = i # rest"
    and i: "readEntry F P fsPath b s d = Fulfilled i"
    and rest: "map Fulfilled rest = map (readEntry F P fsPath b s) des"
    by (cases items) auto
  show ?case
  proof (cases i)
    case None
    with i have "statFails F P fsPath s d"
      by (simp add: readEntry_null)
    with None items Cons.IH [OF rest] show ?thesis by simp
  next
    case (Some e)
    with i have "\<not> statFails F P fsPath s d"
      using readEntry_null [of F P fsPath b s d] by simp
    moreover have "e_name e = d_name d"
      using i Some by (simp add: readEntry_name)
    ultimately show ?thesis
      using Some items Cons.IH [OF rest] by simp
  qed
qed

lemma statFails_name:
  "d_name d = d_name d' \<Longrightarrow> statFails F P fsPath s d = statFails F P fsPath s d'"
  by (simp add: statFails_def)

text \<open>
  Claim C6. When \<^verbatim>\<open>localeCompare\<close> is a consistent comparison, the list that
  \<^verbatim>\<open>readDirectory\<close> returns is its folders followed by its other entries, each of
  the two groups is sorted by name under \<^verbatim>\<open>localeCompare\<close>, and the list is a
  rearrangement of the entries left after the children without \<^verbatim>\<open>stat\<close> were
  dropped; it is empty when the directory cannot be read or a modification time is not
  a valid date.
\<close>

theorem readDirectory_order:
  assumes "consistentComparator lc"
  shows "readDirectory F P lc fsPath vb s
           = filter (\<lambda>e. e_type e = Folder) (readDirectory F P lc fsPath vb s)
             @ filter (\<lambda>e. e_type e \<noteq> Folder) (readDirectory F P lc fsPath vb s)
       \<and> sorted_wrt (\<lambda>a b. lc (e_name a) (e_name b) \<le> 0)
           (filter (\<lambda>e. e_type e = Folder) (readDirectory F P lc fsPath vb s))
       \<and> sorted_wrt (\<lambda>a b. lc (e_name a) (e_name b) \<le> 0)
           (filter (\<lambda>e. e_type e \<noteq> Folder) (readDirectory F P lc fsPath vb s))
       \<and> mset (readDirectory F P lc fsPath vb s)
           = mset (case fs_readdir F fsPath s of
                     Inl e \<Rightarrow> []
                   | Inr dirEntries \<Rightarrow>
                       (case promiseAll
                               (map (readEntry F P fsPath (normalizeVirtualFolder vb) s) dirEntries) of
                          Rejected \<Rightarrow> []
                        | Fulfilled items \<Rightarrow> map the (filter (\<lambda>i. i \<noteq> None) items)))"
proof -
  let ?r = "readDirectory F P lc fsPath vb s"
  let ?R = "\<lambda>a b. compareEntries lc a b \<le> 0"
  have srt: "sorted_wrt ?R ?r"
    using sorted_sortBy [OF compareEntries_consistent [OF assms]]
    by (simp add: readDirectory_def Let_def split: sum.splits settled.splits)
  have part: "?r = filter (\<lambda>e. e_type e = Folder) ?r @ filter (\<lambda>e. e_type e \<noteq> Folder) ?r"
    by (rule sorted_wrt_partition [OF srt]) (auto simp: compareEntries_def split: if_splits)
  have fo: "sorted_wrt (\<lambda>a b. lc (e_name a) (e_name b) \<le> 0) (filter (\<lambda>e. e_type e = Folder) ?r)"
    by (rule sorted_wrt_mono_rel [OF _ sorted_wrt_filter [OF srt]])
      (auto simp: compareEntries_def split: if_splits)
  have fi: "sorted_wrt (\<lambda>a b. lc (e_name a) (e_name b) \<le> 0) (filter (\<lambda>e. e_type e \<noteq> Folder) ?r)"
    by (rule sorted_wrt_mono_rel [OF _ sorted_wrt_filter [OF srt]])
      (auto simp: compareEntries_def split: if_splits)
  have ms: "mset ?r = mset (case fs_readdir F fsPath s of
                     Inl e \<Rightarrow> []
                   | Inr dirEntries \<Rightarrow>
                       (case promiseAll
                               (map (readEntry F P fsPath (normalizeVirtualFolder vb) s) dirEntries) of
                          Rejected \<Rightarrow> []
                        | Fulfilled items \<Rightarrow> map the (filter (\<lambda>i. i \<noteq> None) items)))"
    by (simp add: readDirectory_def Let_def mset_sortBy split: sum.splits settled.splits)
  from part fo fi ms show ?thesis by blast
qed

theorem readDirectory_order_witness:
  "consistentComparator codeUnitCompare
   \<and> map e_name (readDirectory F0 P0 codeUnitCompare ''/h/Desktop'' ''local://Desktop/'' T0)
       = [''sub'', ''a.txt'']
   \<and> map e_name (filter (\<lambda>e. e_type e = Folder)
         (readDirectory F0 P0 codeUnitCompare ''/h/Desktop'' ''local://Desktop/'' T0)) = [''sub'']
   \<and> readDirectory F0 P0 codeUnitCompare ''/h/Desktop'' ''local://Desktop/'' T0
       = filter (\<lambda>e. e_type e = Folder)
           (readDirectory F0 P0 codeUnitCompare ''/h/Desktop'' ''local://Desktop/'' T0)
         @ filter (\<lambda>e. e_type e \<noteq> Folder)
             (readDirectory F0 P0 codeUnitCompare ''/h/Desktop'' ''local://Desktop/'' T0)
   \<and> sorted_wrt (\<lambda>a b. codeUnitCompare (e_name a) (e_name b) \<le> 0)
         (filter (\<lambda>e. e_type e = Folder)
           (readDirectory F0 P0 codeUnitCompare ''/h/Desktop'' ''local://Desktop/'' T0))
   \<and> sorted_wrt (\<lambda>a b. codeUnitCompare (e_name a) (e_name b) \<le> 0)
         (filter (\<lambda>e. e_type e \<noteq> Folder)
           (readDirectory F0 P0 codeUnitCompare ''/h/Desktop'' ''local://Desktop/'' T0))"
proof -
  have n: "map e_name (readDirectory F0 P0 codeUnitCompare ''/h/Desktop'' ''local://Desktop/'' T0)
       = [''sub'', ''a.txt'']"
    by (simp add: readDirectory_def readEntry_def toISOString_def desktop_readdir desktop_stat
        Let_def sortBy_def compareEntries_def inferFileType_def)
  have f: "map e_name (filter (\<lambda>e. e_type e = Folder)
         (readDirectory F0 P0 codeUnitCompare ''/h/Desktop'' ''local://Desktop/'' T0)) = [''sub'']"
    by (simp add: readDirectory_def readEntry_def toISOString_def desktop_readdir desktop_stat
        Let_def sortBy_def compareEntries_def inferFileType_def)
  from readDirectory_order [OF codeUnitCompare_consistent, of F0 P0 "''/h/Desktop''" "''local://Desktop/''" T0]
    codeUnitCompare_consistent n f
  show ?thesis by blast
qed

text \<open>
  Claim C7. When reading the directory fails, \<^verbatim>\<open>readDirectory\<close> returns the empty
  list. When it succeeds, a child whose \<^verbatim>\<open>stat\<close> fails is not in the list, and
  nothing is raised for it: the names returned are the names of the children whose
  \<^verbatim>\<open>stat\<close> did not fail, or none at all when the modification time of one of
  those is not a valid date.
\<close>

theorem readDirectory_soft_failures:
  "(\<forall>e. fs_readdir F fsPath s = Inl e \<longrightarrow> readDirectory F P lc fsPath vb s = [])
   \<and> (\<forall>des. fs_readdir F fsPath s = Inr des \<longrightarrow>
         mset (map e_name (readDirectory F P lc fsPath vb s))
           = (if list_ex (dateFails F P fsPath s) des then {#}
              else mset (map d_name (filter (\<lambda>d. \<not> statFails F P fsPath s d) des))))
   \<and> (\<forall>des d. fs_readdir F fsPath s = Inr des \<and> statFails F P fsPath s d \<longrightarrow>
         d_name d \<notin> set (map e_name (readDirectory F P lc fsPath vb s)))"
proof -
  let ?b = "normalizeVirtualFolder vb"
  let ?r = "readDirectory F P lc fsPath vb s"
  have one: "?r = []" if "fs_readdir F fsPath s = Inl e" for e
    using that by (simp add: readDirectory_def)
  have two: "mset (map e_name ?r)
           = (if list_ex (dateFails F P fsPath s) des then {#}
              else mset (map d_name (filter (\<lambda>d. \<not> statFails F P fsPath s d) des)))"
    if rd: "fs_readdir F fsPath s = Inr des" for des
  proof (cases "promiseAll (map (readEntry F P fsPath ?b s) des)")
    case Rejected
    then have "list_ex (dateFails F P fsPath s) des"
      by (simp add: promiseAll_readEntry)
    moreover have "?r = []"
      using rd Rejected by (simp add: readDirectory_def)
    ultimately show ?thesis by simp
  next
    case (Fulfilled items)
    then have nd: "\<not> list_ex (dateFails F P fsPath s) des"
      using promiseAll_readEntry [of F P fsPath ?b s des] by simp
    from Fulfilled have it: "map Fulfilled items = map (readEntry F P fsPath ?b s) des"
      by (simp add: promiseAll_Fulfilled)
    have "mset ?r = mset (map the (filter (\<lambda>i. i \<noteq> None) items))"
      using rd Fulfilled by (simp add: readDirectory_def mset_sortBy)
    then have "image_mset e_name (mset ?r)
        = image_mset e_name (mset (map the (filter (\<lambda>i. i \<noteq> None) items)))"
      by (rule arg_cong)
    then have "mset (map e_name ?r)
        = mset (map e_name (map the (filter (\<lambda>i. i \<noteq> None) items)))"
      by (simp only: mset_map)
    also have "\<dots> = mset (map d_name (filter (\<lambda>d. \<not> statFails F P fsPath s d) des))"
      by (simp only: kept_names [OF it])
    finally show ?thesis
      using nd by simp
  qed
  have three: "d_name d \<notin> set (map e_name ?r)"
    if rd: "fs_readdir F fsPath s = Inr des" and sf: "statFails F P fsPath s d" for des d
  proof
    assume m: "d_name d \<in> set (map e_name ?r)"
    show False
    proof (cases "list_ex (dateFails F P fsPath s) des")
      case True
      with two [OF rd] have "map e_name ?r = []"
        by simp
      with m show False
        by simp
    next
      case False
      with two [OF rd]
      have "mset (map e_name ?r)
          = mset (map d_name (filter (\<lambda>d. \<not> statFails F P fsPath s d) des))"
        by simp
      then have "set (map e_name ?r)
          = set (map d_name (filter (\<lambda>d. \<not> statFails F P fsPath s d) des))"
        by (rule mset_eq_setD)
      with m obtain d' where "d' \<in> set des" "\<not> statFails F P fsPath s d'" "d_name d' = d_name d"
        by auto
      with sf statFails_name [of d' d F P fsPath s] show False
        by simp
    qed
  qed
  from one two three show ?thesis by blast
qed

theorem readDirectory_soft_failures_witness:
  "fs_readdir F0 ''/h/Missing'' T0 = Inl ENOENT
   \<and> readDirectory F0 P0 codeUnitCompare ''/h/Missing'' ''local://Missing/'' T0 = []
   \<and> fs_readdir F1 ''/h/Desktop'' T0
       = Inr [\<lparr>d_name = ''a.txt'', d_isDirectory = False\<rparr>, \<lparr>d_name = ''sub'', d_isDirectory = True\<rparr>]
   \<and> statFails F1 P0 ''/h/Desktop'' T0 \<lparr>d_name = ''sub'', d_isDirectory = True\<rparr>
   \<and> mset (map e_name (readDirectory F1 P0 codeUnitCompare ''/h/Desktop'' ''local://Desktop/'' T0))
       = {#''a.txt''#}
   \<and> ''sub'' \<notin> set (map e_name (readDirectory F1 P0 codeUnitCompare ''/h/Desktop'' ''local://Desktop/'' T0))
   \<and> fs_readdir F2 ''/h/Desktop'' T0
       = Inr [\<lparr>d_name = ''a.txt'', d_isDirectory = False\<rparr>, \<lparr>d_name = ''sub'', d_isDirectory = True\<rparr>]
   \<and> dateFails F2 P0 ''/h/Desktop'' T0 \<lparr>d_name = ''a.txt'', d_isDirectory = False\<rparr>
   \<and> mset (map e_name (readDirectory F2 P0 codeUnitCompare ''/h/Desktop'' ''local://Desktop/'' T0))
       = {#}"
proof -
  let ?des = "[\<lparr>d_name = ''a.txt'', d_isDirectory = False\<rparr>, \<lparr>d_name = ''sub'', d_isDirectory = True\<rparr>]"
  have m: "fs_readdir F0 ''/h/Missing'' T0 = Inl ENOENT"
    by code_simp
  have sf: "statFails F1 P0 ''/h/Desktop'' T0 \<lparr>d_name = ''sub'', d_isDirectory = True\<rparr>"
    "\<not> statFails F1 P0 ''/h/Desktop'' T0 \<lparr>d_name = ''a.txt'', d_isDirectory = False\<rparr>"
    by (simp_all add: statFails_def desktop_stat)
  have df1: "\<not> list_ex (dateFails F1 P0 ''/h/Desktop'' T0) ?des"
    by (simp add: dateFails_def toISOString_def desktop_stat)
  have df2: "dateFails F2 P0 ''/h/Desktop'' T0 \<lparr>d_name = ''a.txt'', d_isDirectory = False\<rparr>"
    by (simp add: dateFails_def toISOString_def desktop_stat)
  then have df2': "list_ex (dateFails F2 P0 ''/h/Desktop'' T0) ?des"
    by simp
  note t0 = readDirectory_soft_failures [of F0 "''/h/Missing''" T0 P0 codeUnitCompare "''local://Missing/''"]
  note t1 = readDirectory_soft_failures [of F1 "''/h/Desktop''" T0 P0 codeUnitCompare "''local://Desktop/''"]
  note t2 = readDirectory_soft_failures [of F2 "''/h/Desktop''" T0 P0 codeUnitCompare "''local://Desktop/''"]
  from t0 m have a: "readDirectory F0 P0 codeUnitCompare ''/h/Missing'' ''local://Missing/'' T0 = []"
    by blast
  from t1 desktop_readdir1
  have "mset (map e_name (readDirectory F1 P0 codeUnitCompare ''/h/Desktop'' ''local://Desktop/'' T0))
      = (if list_ex (dateFails F1 P0 ''/h/Desktop'' T0) ?des then {#}
         else mset (map d_name (filter (\<lambda>d. \<not> statFails F1 P0 ''/h/Desktop'' T0 d) ?des)))"
    by blast
  with sf df1 have b: "mset (map e_name (readDirectory F1 P0 codeUnitCompare ''/h/Desktop'' ''local://Desktop/'' T0))
       = {#''a.txt''#}"
    by simp
  from t1 desktop_readdir1 sf(1)
  have c: "d_name \<lparr>d_name = ''sub'', d_isDirectory = True\<rparr>
      \<notin> set (map e_name (readDirectory F1 P0 codeUnitCompare ''/h/Desktop'' ''local://Desktop/'' T0))"
    by blast
  then have c': "''sub'' \<notin> set (map e_name (readDirectory F1 P0 codeUnitCompare ''/h/Desktop'' ''local://Desktop/'' T0))"
    by simp
  from t2 desktop_readdir2
  have "mset (map e_name (readDirectory F2 P0 codeUnitCompare ''/h/Desktop'' ''local://Desktop/'' T0))
      = (if list_ex (dateFails F2 P0 ''/h/Desktop'' T0) ?des then {#}
         else mset (map d_name (filter (\<lambda>d. \<not> statFails F2 P0 ''/h/Desktop'' T0 d) ?des)))"
    by blast
  with df2' have d: "mset (map e_name (readDirectory F2 P0 codeUnitCompare ''/h/Desktop'' ''local://Desktop/'' T0))
       = {#}"
    by (simp only: if_True)
  from m a desktop_readdir1 sf(1) b c' desktop_readdir2 df2 d show ?thesis by blast
qed

section \<open>Batches of copies and moves\<close>

lemma copyLoop_append:
  "copyLoop F P E move dfs dv (pre @ post) results A s =
     (case copyLoop F P E move dfs dv pre results A s of
        (Inl e, A1, s1) \<Rightarrow> (Inl e, A1, s1)
      | (Inr r, A1, s1) \<Rightarrow> copyLoop F P E move dfs dv post r A1 s1)"
proof (induction pre arbitrary: results A s)
  case Nil
  then show ?case by simp
next
  case (Cons x xs)
  obtain res A1 s1 where st: "copyStep F P E move dfs dv x A s = (res, A1, s1)"
    by (cases "copyStep F P E move dfs dv x A s") auto
  show ?case
  proof (cases res)
    case (Inl e)
    with st show ?thesis by simp
  next
    case (Inr io)
    with st Cons.IH show ?thesis by (cases io) simp_all
  qed
qed

lemma copyLoop_error_split:
  "copyLoop F P E move dfs dv sources results A s = (Inl e, A', s') \<Longrightarrow>
     \<exists>pre src post r A1 s1.
        sources = pre @ src # post
        \<and> copyLoop F P E move dfs dv pre results A s = (Inr r, A1, s1)
        \<and> copyStep F P E move dfs dv src A1 s1 = (Inl e, A', s')"
proof (induction sources arbitrary: results A s)
  case Nil
  then show ?case by simp
next
  case (Cons x xs)
  obtain res A1 s1 where st: "copyStep F P E move dfs dv x A s = (res, A1, s1)"
    by (cases "copyStep F P E move dfs dv x A s") auto
  show ?case
  proof (cases res)
    case (Inl e0)
    with st Cons.prems have "copyStep F P E move dfs dv x A s = (Inl e, A', s')"
      by simp
    moreover have "copyLoop F P E move dfs dv [] results A s = (Inr results, A, s)"
      by simp
    ultimately show ?thesis by (metis append_Nil)
  next
    case (Inr io)
    define results' where "results' = (case io of None \<Rightarrow> results | Some item \<Rightarrow> results @ [item])"
    from st Inr have unf: "\<And>ys. copyLoop F P E move dfs dv (x # ys) results A s
        = copyLoop F P E move dfs dv ys results' A1 s1"
      by (cases io) (simp_all add: results'_def)
    with Cons.prems have "copyLoop F P E move dfs dv xs results' A1 s1 = (Inl e, A', s')"
      by simp
    from Cons.IH [OF this] obtain pre src post r A2 s2
      where "xs = pre @ src # post"
        and "copyLoop F P E move dfs dv pre results' A1 s1 = (Inr r, A2, s2)"
        and "copyStep F P E move dfs dv src A2 s2 = (Inl e, A', s')"
      by blast
    with unf [of pre] have "x # xs = (x # pre) @ src # post"
      "copyLoop F P E move dfs dv (x # pre) results A s = (Inr r, A2, s2)"
      "copyStep F P E move dfs dv src A2 s2 = (Inl e, A', s')"
      by simp_all
    then show ?thesis by blast
  qed
qed

lemma copyStep_validation_state:
  assumes "copyStep F P E move dfs dv src A s = (Inl e, A', s')" and "\<forall>c. e \<noteq> FsError c"
  shows "s' = s"
  using assms
  by (auto simp: copyStep_def Let_def
      split: prod.splits sum.splits resolved.splits option.splits if_splits)

text \<open>
  Claim C1, as the code has it. When \<^verbatim>\<open>performCopyOrMove\<close> fails with an error
  that is not a rejection of \<^verbatim>\<open>node:fs\<close>, then either the source list was empty
  or the destination did not resolve to a directory entry, and the file system is as
  it was; or the error was raised for one source of the batch, and the file system is
  exactly as the creation of the destination directory and the sources before that one
  left it: the failing source itself changed nothing, the earlier ones keep their
  effect.
\<close>

theorem validation_error_state:
  assumes run: "performCopyOrMove F P E A sources destination move s = (Inl e, A', s')"
    and val: "\<forall>c. e \<noteq> FsError c"
  shows "((sources = [] \<or> (\<forall>destFs destBase.
              fst (resolveLocalVirtualPath P E A (normalizeDestinationVirtual destination))
                \<noteq> Inr (Entry destFs True destBase))) \<and> s' = s)
       \<or> (\<exists>destFs destBase A0 s0 pre src post r A1.
             resolveLocalVirtualPath P E A (normalizeDestinationVirtual destination)
               = (Inr (Entry destFs True destBase), A0)
             \<and> (if pathExists F destFs s then (None, s) else ensureDirectory F destFs s) = (None, s0)
             \<and> sources = pre @ src # post
             \<and> copyLoop F P E move destFs (normalizeDestinationVirtual destination) pre [] A0 s0
                 = (Inr r, A1, s')
             \<and> copyStep F P E move destFs (normalizeDestinationVirtual destination) src A1 s'
                 = (Inl e, A', s'))"
proof (cases "sources = []")
  case True
  with run show ?thesis by (simp add: performCopyOrMove_def)
next
  case ne: False
  let ?dv = "normalizeDestinationVirtual destination"
  obtain res A0 where rd: "resolveLocalVirtualPath P E A ?dv = (res, A0)"
    by (cases "resolveLocalVirtualPath P E A ?dv") auto
  show ?thesis
  proof (cases "\<exists>destFs destBase. res = Inr (Entry destFs True destBase)")
    case False
    with run ne rd have "s' = s"
      by (auto simp: performCopyOrMove_def Let_def split: sum.splits resolved.splits if_splits)
    with False rd show ?thesis by auto
  next
    case True
    then obtain destFs destBase where res: "res = Inr (Entry destFs True destBase)"
      by blast
    obtain eo s0 where en: "(if pathExists F destFs s then (None, s) else ensureDirectory F destFs s) = (eo, s0)"
      by (cases "if pathExists F destFs s then (None, s) else ensureDirectory F destFs s") auto
    from run ne rd res en val have eo: "eo = None"
      by (cases eo) (auto simp: performCopyOrMove_def Let_def)
    from run ne rd res en eo
    have lp: "copyLoop F P E move destFs ?dv sources [] A0 s0 = (Inl e, A', s')"
      by (auto simp: performCopyOrMove_def Let_def split: prod.splits sum.splits)
    from copyLoop_error_split [OF lp] obtain pre src post r A1 s1
      where sp: "sources = pre @ src # post"
        and lpre: "copyLoop F P E move destFs ?dv pre [] A0 s0 = (Inr r, A1, s1)"
        and stp: "copyStep F P E move destFs ?dv src A1 s1 = (Inl e, A', s')"
      by blast
    from copyStep_validation_state [OF stp val] have "s' = s1" .
    with rd res en eo sp lpre stp show ?thesis by blast
  qed
qed

theorem validation_error_state_witness:
  "fst (performCopyOrMove F0 P0 E0 aliases0 [''local://Desktop/a.txt'', ''local://'']
          ''local://Documents/'' False T0) = Inl (UnsupportedSource ''local://'')
   \<and> snd (snd (performCopyOrMove F0 P0 E0 aliases0 [''local://Desktop/a.txt'', ''local://'']
          ''local://Documents/'' False T0))
       = ([''h'', ''Documents'', ''a.txt''], FileNode ''hi'') # T0 @ [([''h'', ''Documents''], DirNode)]
   \<and> (\<exists>destFs destBase A0 s0 pre src post r A1.
         resolveLocalVirtualPath P0 E0 aliases0 (normalizeDestinationVirtual ''local://Documents/'')
           = (Inr (Entry destFs True destBase), A0)
         \<and> (if pathExists F0 destFs T0 then (None, T0) else ensureDirectory F0 destFs T0) = (None, s0)
         \<and> [''local://Desktop/a.txt'', ''local://''] = pre @ src # post
         \<and> copyLoop F0 P0 E0 False destFs (normalizeDestinationVirtual ''local://Documents/'') pre [] A0 s0
             = (Inr r, A1, ([''h'', ''Documents'', ''a.txt''], FileNode ''hi'') # T0 @ [([''h'', ''Documents''], DirNode)])
         \<and> fst (copyStep F0 P0 E0 False destFs (normalizeDestinationVirtual ''local://Documents/'') src A1
               (([''h'', ''Documents'', ''a.txt''], FileNode ''hi'') # T0 @ [([''h'', ''Documents''], DirNode)]))
             = Inl (UnsupportedSource ''local://''))"
proof -
  let ?run = "performCopyOrMove F0 P0 E0 aliases0 [''local://Desktop/a.txt'', ''local://'']
          ''local://Documents/'' False T0"
  let ?T1 = "([''h'', ''Documents'', ''a.txt''], FileNode ''hi'') # T0 @ [([''h'', ''Documents''], DirNode)]"
  have e: "fst ?run = Inl (UnsupportedSource ''local://'')"
    by code_simp
  have t: "snd (snd ?run) = ?T1"
    by code_simp
  have ne: "?T1 \<noteq> T0"
    by code_simp
  from e t have run: "?run = (Inl (UnsupportedSource ''local://''), fst (snd ?run), ?T1)"
    by (metis prod.collapse)
  have val: "\<forall>c. UnsupportedSource ''local://'' \<noteq> FsError c"
    by simp
  from validation_error_state [OF run val] ne
  have "\<exists>destFs destBase A0 s0 pre src post r A1.
         resolveLocalVirtualPath P0 E0 aliases0 (normalizeDestinationVirtual ''local://Documents/'')
           = (Inr (Entry destFs True destBase), A0)
         \<and> (if pathExists F0 destFs T0 then (None, T0) else ensureDirectory F0 destFs T0) = (None, s0)
         \<and> [''local://Desktop/a.txt'', ''local://''] = pre @ src # post
         \<and> copyLoop F0 P0 E0 False destFs (normalizeDestinationVirtual ''local://Documents/'') pre [] A0 s0
             = (Inr r, A1, ?T1)
         \<and> copyStep F0 P0 E0 False destFs (normalizeDestinationVirtual ''local://Documents/'') src A1 ?T1
             = (Inl (UnsupportedSource ''local://''), fst (snd ?run), ?T1)"
    by blast
  then have "\<exists>destFs destBase A0 s0 pre src post r A1.
         resolveLocalVirtualPath P0 E0 aliases0 (normalizeDestinationVirtual ''local://Documents/'')
           = (Inr (Entry destFs True destBase), A0)
         \<and> (if pathExists F0 destFs T0 then (None, T0) else ensureDirectory F0 destFs T0) = (None, s0)
         \<and> [''local://Desktop/a.txt'', ''local://''] = pre @ src # post
         \<and> copyLoop F0 P0 E0 False destFs (normalizeDestinationVirtual ''local://Documents/'') pre [] A0 s0
             = (Inr r, A1, ?T1)
         \<and> fst (copyStep F0 P0 E0 False destFs (normalizeDestinationVirtual ''local://Documents/'') src A1 ?T1)
             = Inl (UnsupportedSource ''local://'')"
    by (metis fst_conv)
  with e t show ?thesis by blast
qed

text \<open>
  Claim C1 as stated fails. An unsupported second source is reported after the first
  source has been copied, and copying the desktop into a folder of its own is reported
  after that folder has been created inside it.
\<close>

theorem validation_error_after_effects:
  "fst (performCopyOrMove F0 P0 E0 aliases0 [''local://Desktop/a.txt'', ''local://'']
          ''local://Documents/'' False T0) = Inl (UnsupportedSource ''local://'')
   \<and> lookupNode T0 [''h'', ''Documents'', ''a.txt''] = None
   \<and> lookupNode (snd (snd (performCopyOrMove F0 P0 E0 aliases0 [''local://Desktop/a.txt'', ''local://'']
          ''local://Documents/'' False T0))) [''h'', ''Documents'', ''a.txt''] = Some (FileNode ''hi'')
   \<and> fst (performCopyOrMove F0 P0 E0 aliases0 [''local://Desktop/''] ''local://Desktop/sub/in'' False T0)
       = Inl SelfContainment
   \<and> lookupNode T0 [''h'', ''Desktop'', ''sub'', ''in''] = None
   \<and> lookupNode (snd (snd (performCopyOrMove F0 P0 E0 aliases0 [''local://Desktop/'']
          ''local://Desktop/sub/in'' False T0))) [''h'', ''Desktop'', ''sub'', ''in''] = Some DirNode"
  by code_simp

lemma not_prefix_longer: "sep \<noteq> [] \<Longrightarrow> \<not> prefix (r @ sep) r"
  by (auto dest: prefix_length_le)

lemma performCopyOrMove_loop:
  assumes "resolveLocalVirtualPath P E Ainit (normalizeDestinationVirtual destination)
             = (Inr (Entry destFs True destBase), A0)"
    and "(if pathExists F destFs s0 then (None, s0) else ensureDirectory F destFs s0) = (None, s1)"
    and "sources \<noteq> []"
  shows "performCopyOrMove F P E Ainit sources destination move s0 =
     (case copyLoop F P E move destFs (normalizeDestinationVirtual destination) sources [] A0 s1 of
        (Inl e, A2, s2) \<Rightarrow> (Inl e, A2, s2)
      | (Inr results, A2, s2) \<Rightarrow> (Inr \<lparr>r_success = True, r_items = results\<rparr>, A2, s2))"
  using assms by (simp add: performCopyOrMove_def Let_def)

text \<open>
  Claim C2. For a source that the loop processes (it resolves to an entry and its
  \<^verbatim>\<open>stat\<close> succeeds) and a path separator that is not empty, the pass of the loop
  throws the self-containment error exactly when the resolved target path, the
  destination directory joined with the base name of the source, starts with the
  resolved source path followed by the separator; and then the whole call fails with
  that error, whatever sources came before and were processed.
\<close>

theorem selfContainment_iff:
  assumes sep: "path_sep P \<noteq> []"
    and src: "resolveLocalVirtualPath P E A src = (Inr (Entry sourceFs isDir base), A1)"
    and st: "fs_stat F sourceFs s = Inr st"
  shows "(fst (copyStep F P E move destFs (normalizeDestinationVirtual destination) src A s)
            = Inl SelfContainment
          \<longleftrightarrow> startsWith (path_resolve P (path_join P [destFs, path_basename P sourceFs]))
                (path_resolve P sourceFs @ path_sep P))
       \<and> (\<forall>Ainit A0 destBase s0 s1 pre r rest.
            resolveLocalVirtualPath P E Ainit (normalizeDestinationVirtual destination)
              = (Inr (Entry destFs True destBase), A0)
            \<and> (if pathExists F destFs s0 then (None, s0) else ensureDirectory F destFs s0) = (None, s1)
            \<and> copyLoop F P E move destFs (normalizeDestinationVirtual destination) pre [] A0 s1
                = (Inr r, A, s)
            \<and> startsWith (path_resolve P (path_join P [destFs, path_basename P sourceFs]))
                (path_resolve P sourceFs @ path_sep P)
            \<longrightarrow> fst (performCopyOrMove F P E Ainit (pre @ src # rest) destination move s0)
                = Inl SelfContainment)"
proof -
  let ?dv = "normalizeDestinationVirtual destination"
  let ?rs = "path_resolve P sourceFs"
  let ?rd = "path_resolve P (path_join P [destFs, path_basename P sourceFs])"
  have np: "?rs = ?rd \<Longrightarrow> \<not> startsWith ?rd (?rs @ path_sep P)"
    using not_prefix_longer [OF sep, of ?rs] by simp
  have step: "fst (copyStep F P E move destFs ?dv src A s) = Inl SelfContainment
          \<longleftrightarrow> startsWith ?rd (?rs @ path_sep P)"
  proof (cases "?rs = ?rd")
    case True
    with np src st show ?thesis by (simp add: copyStep_def Let_def)
  next
    case False
    with src st show ?thesis
      by (simp add: copyStep_def Let_def split: prod.splits option.splits)
  qed
  have whole: "fst (performCopyOrMove F P E Ainit (pre @ src # rest) destination move s0) = Inl SelfContainment"
    if d: "resolveLocalVirtualPath P E Ainit ?dv = (Inr (Entry destFs True destBase), A0)"
      and en: "(if pathExists F destFs s0 then (None, s0) else ensureDirectory F destFs s0) = (None, s1)"
      and lp: "copyLoop F P E move destFs ?dv pre [] A0 s1 = (Inr r, A, s)"
      and pf: "startsWith ?rd (?rs @ path_sep P)"
    for Ainit A0 destBase s0 s1 pre r rest
  proof -
    from pf step obtain A2 s2 where cs: "copyStep F P E move destFs ?dv src A s = (Inl SelfContainment, A2, s2)"
      by (metis prod.collapse)
    have "copyLoop F P E move destFs ?dv (pre @ src # rest) [] A0 s1 = (Inl SelfContainment, A2, s2)"
      using lp cs by (simp add: copyLoop_append)
    then show ?thesis
      using performCopyOrMove_loop [OF d en, of "pre @ src # rest" move] by simp
  qed
  from step whole show ?thesis by blast
qed

theorem selfContainment_iff_witness:
  "path_sep P0 \<noteq> []
   \<and> fst (resolveLocalVirtualPath P0 E0 aliases0 (normalizeDestinationVirtual ''local://Desktop/sub/in''))
       = Inr (Entry ''/h/Desktop/sub/in'' True ''local://Desktop/'')
   \<and> fst (resolveLocalVirtualPath P0 E0
            (snd (resolveLocalVirtualPath P0 E0 aliases0 (normalizeDestinationVirtual ''local://Desktop/sub/in'')))
            ''local://Desktop/'')
       = Inr (Entry ''/h/Desktop'' True ''local://Desktop/'')
   \<and> fs_stat F0 ''/h/Desktop'' (T0 @ [([''h'', ''Desktop'', ''sub'', ''in''], DirNode)])
       = Inr \<lparr>st_isDirectory = True, st_size = 0, st_mtime = 0\<rparr>
   \<and> startsWith (path_resolve P0 (path_join P0 [''/h/Desktop/sub/in'', path_basename P0 ''/h/Desktop'']))
         (path_resolve P0 ''/h/Desktop'' @ path_sep P0)
   \<and> fst (copyStep F0 P0 E0 False ''/h/Desktop/sub/in'' (normalizeDestinationVirtual ''local://Desktop/sub/in'')
            ''local://Desktop/''
            (snd (resolveLocalVirtualPath P0 E0 aliases0 (normalizeDestinationVirtual ''local://Desktop/sub/in'')))
            (T0 @ [([''h'', ''Desktop'', ''sub'', ''in''], DirNode)]))
       = Inl SelfContainment
   \<and> fst (performCopyOrMove F0 P0 E0 aliases0 [''local://Desktop/''] ''local://Desktop/sub/in'' False T0)
       = Inl SelfContainment"
proof -
  let ?dv = "normalizeDestinationVirtual ''local://Desktop/sub/in''"
  let ?A = "snd (resolveLocalVirtualPath P0 E0 aliases0 ?dv)"
  let ?A1 = "snd (resolveLocalVirtualPath P0 E0 ?A ''local://Desktop/'')"
  let ?s = "T0 @ [([''h'', ''Desktop'', ''sub'', ''in''], DirNode)]"
  have sep: "path_sep P0 \<noteq> []"
    by code_simp
  have d: "fst (resolveLocalVirtualPath P0 E0 aliases0 ?dv)
       = Inr (Entry ''/h/Desktop/sub/in'' True ''local://Desktop/'')"
    by code_simp
  have sr: "fst (resolveLocalVirtualPath P0 E0 ?A ''local://Desktop/'')
       = Inr (Entry ''/h/Desktop'' True ''local://Desktop/'')"
    by code_simp
  have st: "fs_stat F0 ''/h/Desktop'' ?s = Inr \<lparr>st_isDirectory = True, st_size = 0, st_mtime = 0\<rparr>"
    by code_simp
  have pf: "startsWith (path_resolve P0 (path_join P0 [''/h/Desktop/sub/in'', path_basename P0 ''/h/Desktop'']))
         (path_resolve P0 ''/h/Desktop'' @ path_sep P0)"
    by code_simp
  have en: "(if pathExists F0 ''/h/Desktop/sub/in'' T0 then (None, T0)
             else ensureDirectory F0 ''/h/Desktop/sub/in'' T0) = (None, ?s)"
    by code_simp
  from d have d': "resolveLocalVirtualPath P0 E0 aliases0 ?dv
       = (Inr (Entry ''/h/Desktop/sub/in'' True ''local://Desktop/''), ?A)"
    by (metis prod.collapse)
  from sr have sr': "resolveLocalVirtualPath P0 E0 ?A ''local://Desktop/''
       = (Inr (Entry ''/h/Desktop'' True ''local://Desktop/''), ?A1)"
    by (metis prod.collapse)
  have lp: "copyLoop F0 P0 E0 False ''/h/Desktop/sub/in'' ?dv [] [] ?A ?s = (Inr [], ?A, ?s)"
    by simp
  note t = selfContainment_iff [OF sep sr' st, of False "''/h/Desktop/sub/in''" "''local://Desktop/sub/in''"]
  from t pf have c1: "fst (copyStep F0 P0 E0 False ''/h/Desktop/sub/in'' ?dv ''local://Desktop/'' ?A ?s)
       = Inl SelfContainment"
    by blast
  from t d' en lp pf
  have "fst (performCopyOrMove F0 P0 E0 aliases0 ([] @ ''local://Desktop/'' # []) ''local://Desktop/sub/in'' False T0)
       = Inl SelfContainment"
    by blast
  then have c2: "fst (performCopyOrMove F0 P0 E0 aliases0 [''local://Desktop/''] ''local://Desktop/sub/in'' False T0)
       = Inl SelfContainment"
    by simp
  from sep d sr st pf c1 c2 show ?thesis by blast
qed

text \<open>
  Claim C5, as the code has it. A source that exists (its \<^verbatim>\<open>stat\<close> succeeds) and
  whose resolved path equals the resolved target path is skipped: the pass of the loop
  throws nothing, leaves the file system as it is and pushes no item, so the loop goes
  on with the same results; copying such a source alone onto its own directory
  returns success with no items and an unchanged file system.
\<close>

theorem equal_paths_skipped:
  assumes src: "resolveLocalVirtualPath P E A src = (Inr (Entry sourceFs isDir base), A1)"
    and st: "fs_stat F sourceFs s = Inr st"
    and eq: "path_resolve P sourceFs = path_resolve P (path_join P [destFs, path_basename P sourceFs])"
  shows "copyStep F P E move destFs (normalizeDestinationVirtual destination) src A s = (Inr None, A1, s)
       \<and> copyLoop F P E move destFs (normalizeDestinationVirtual destination) (src # rest) results A s
           = copyLoop F P E move destFs (normalizeDestinationVirtual destination) rest results A1 s
       \<and> (\<forall>Ainit destBase.
            resolveLocalVirtualPath P E Ainit (normalizeDestinationVirtual destination)
              = (Inr (Entry destFs True destBase), A)
            \<and> pathExists F destFs s
            \<longrightarrow> performCopyOrMove F P E Ainit [src] destination move s
                = (Inr \<lparr>r_success = True, r_items = []\<rparr>, A1, s))"
proof -
  let ?dv = "normalizeDestinationVirtual destination"
  have step: "copyStep F P E move destFs ?dv src A s = (Inr None, A1, s)"
    using src st eq by (simp add: copyStep_def Let_def)
  then have loop: "copyLoop F P E move destFs ?dv (src # rest) results A s
           = copyLoop F P E move destFs ?dv rest results A1 s" for rest results
    by simp
  have whole: "performCopyOrMove F P E Ainit [src] destination move s
                = (Inr \<lparr>r_success = True, r_items = []\<rparr>, A1, s)"
    if d: "resolveLocalVirtualPath P E Ainit ?dv = (Inr (Entry destFs True destBase), A)"
      and ex: "pathExists F destFs s"
    for Ainit destBase
  proof -
    from ex have en: "(if pathExists F destFs s then (None, s) else ensureDirectory F destFs s) = (None, s)"
      by simp
    show ?thesis
      using performCopyOrMove_loop [OF d en, of "[src]" move] loop [of "[]" "[]"] by simp
  qed
  from step loop whole show ?thesis by blast
qed

theorem equal_paths_skipped_witness:
  "fst (resolveLocalVirtualPath P0 E0 aliases0 (normalizeDestinationVirtual ''local://Desktop/''))
     = Inr (Entry ''/h/Desktop'' True ''local://Desktop/'')
   \<and> fst (resolveLocalVirtualPath P0 E0
          (snd (resolveLocalVirtualPath P0 E0 aliases0 (normalizeDestinationVirtual ''local://Desktop/'')))
          ''local://Desktop/a.txt'')
     = Inr (Entry ''/h/Desktop/a.txt'' False ''local://Desktop/'')
   \<and> fs_stat F0 ''/h/Desktop/a.txt'' T0 = Inr \<lparr>st_isDirectory = False, st_size = 2, st_mtime = 0\<rparr>
   \<and> path_resolve P0 ''/h/Desktop/a.txt''
     = path_resolve P0 (path_join P0 [''/h/Desktop'', path_basename P0 ''/h/Desktop/a.txt''])
   \<and> pathExists F0 ''/h/Desktop'' T0
   \<and> fst (performCopyOrMove F0 P0 E0 aliases0 [''local://Desktop/a.txt''] ''local://Desktop/'' False T0)
     = Inr \<lparr>r_success = True, r_items = []\<rparr>
   \<and> snd (snd (performCopyOrMove F0 P0 E0 aliases0 [''local://Desktop/a.txt''] ''local://Desktop/'' False T0))
     = T0"
proof -
  let ?dv = "normalizeDestinationVirtual ''local://Desktop/''"
  let ?A = "snd (resolveLocalVirtualPath P0 E0 aliases0 ?dv)"
  let ?A1 = "snd (resolveLocalVirtualPath P0 E0 ?A ''local://Desktop/a.txt'')"
  have d: "fst (resolveLocalVirtualPath P0 E0 aliases0 ?dv)
     = Inr (Entry ''/h/Desktop'' True ''local://Desktop/'')"
    by code_simp
  have sr: "fst (resolveLocalVirtualPath P0 E0 ?A ''local://Desktop/a.txt'')
     = Inr (Entry ''/h/Desktop/a.txt'' False ''local://Desktop/'')"
    by code_simp
  have st: "fs_stat F0 ''/h/Desktop/a.txt'' T0 = Inr \<lparr>st_isDirectory = False, st_size = 2, st_mtime = 0\<rparr>"
    by code_simp
  have eq: "path_resolve P0 ''/h/Desktop/a.txt''
     = path_resolve P0 (path_join P0 [''/h/Desktop'', path_basename P0 ''/h/Desktop/a.txt''])"
    by code_simp
  have ex: "pathExists F0 ''/h/Desktop'' T0"
    by code_simp
  from d have d': "resolveLocalVirtualPath P0 E0 aliases0 ?dv
       = (Inr (Entry ''/h/Desktop'' True ''local://Desktop/''), ?A)"
    by (metis prod.collapse)
  from sr have sr': "resolveLocalVirtualPath P0 E0 ?A ''local://Desktop/a.txt''
       = (Inr (Entry ''/h/Desktop/a.txt'' False ''local://Desktop/''), ?A1)"
    by (metis prod.collapse)
  from equal_paths_skipped [OF sr' st eq, of False "''local://Desktop/''"] d' ex
  have "performCopyOrMove F0 P0 E0 aliases0 [''local://Desktop/a.txt''] ''local://Desktop/'' False T0
      = (Inr \<lparr>r_success = True, r_items = []\<rparr>, ?A1, T0)"
    by blast
  then have c: "fst (performCopyOrMove F0 P0 E0 aliases0 [''local://Desktop/a.txt''] ''local://Desktop/'' False T0)
      = Inr \<lparr>r_success = True, r_items = []\<rparr>"
    "snd (snd (performCopyOrMove F0 P0 E0 aliases0 [''local://Desktop/a.txt''] ''local://Desktop/'' False T0)) = T0"
    by simp_all
  from d sr st eq ex c show ?thesis by blast
qed

text \<open>
  Claim C5 as stated fails for a source that does not exist: \<^verbatim>\<open>stat\<close> runs before
  the two resolved paths are compared, so copying the missing \<^verbatim>\<open>ghost\<close> onto its
  own directory is rejected with \<^verbatim>\<open>ENOENT\<close>.
\<close>

theorem missing_source_not_skipped:
  "fst (resolveLocalVirtualPath P0 E0 aliases0 ''local://Desktop/ghost'')
     = Inr (Entry ''/h/Desktop/ghost'' False ''local://Desktop/'')
   \<and> fst (resolveLocalVirtualPath P0 E0 aliases0 (normalizeDestinationVirtual ''local://Desktop/''))
     = Inr (Entry ''/h/Desktop'' True ''local://Desktop/'')
   \<and> path_resolve P0 ''/h/Desktop/ghost''
     = path_resolve P0 (path_join P0 [''/h/Desktop'', path_basename P0 ''/h/Desktop/ghost''])
   \<and> fst (performCopyOrMove F0 P0 E0 aliases0 [''local://Desktop/ghost''] ''local://Desktop/'' False T0)
     = Inl (FsError ENOENT)"
  by code_simp

section \<open>Moves across devices\<close>

text \<open>
  A directory as deep as the longest path of the tree has no entries, which is where
  the descent of \<^verbatim>\<open>cp\<close> ends.
\<close>

lemma longestPath_bound: "(q, n) \<in> set t \<Longrightarrow> length q \<le> longestPath t"
  unfolding longestPath_def by (induction t) auto

lemma no_entries_at_longestPath:
  assumes "longestPath t \<le> length (posix_components cwd p)"
    and "px_readdir cwd p t = Inr entries"
  shows "entries = []"
proof -
  have "filter (\<lambda>(q, n). q \<noteq> [] \<and> butlast q = posix_components cwd p \<and> map_of t q = Some n) t = []"
  proof (rule ccontr)
    assume "\<not> ?thesis"
    then obtain q n where qn: "(q, n) \<in> set t" and ne: "q \<noteq> []"
      and bl: "butlast q = posix_components cwd p"
      by (auto simp: filter_empty_conv)
    from bl have "length q - 1 = length (posix_components cwd p)"
      by (metis length_butlast)
    with ne assms(1) have "longestPath t < length q"
      by (cases q) auto
    with longestPath_bound [OF qn] show False
      by simp
  qed
  with assms(2) show ?thesis
    by (auto simp: px_readdir_def Let_def split: option.splits node.splits)
qed






end
